theory Spec2Isabelle
  imports Main "HOL-Library.AList" "HOL-Library.Multiset"
begin

section \<open>The graph model of X6 (\<^verbatim>\<open>packages/x6/src/model/model.ts\<close>)\<close>

text \<open>
  The class \<^verbatim>\<open>Model\<close> keeps a \<^verbatim>\<open>Collection\<close> of cells, two membership caches
  (\<^verbatim>\<open>nodes\<close>, \<^verbatim>\<open>edges\<close>), the batch counters and the set of cells that are being
  added. The embedding passes the model as an explicit state record; every event that
  \<^verbatim>\<open>notify\<close> publishes is appended to a log kept in the state, so that the order of
  the events can be stated.
\<close>

subsection \<open>Objects used as dictionaries\<close>

text \<open>
  A \<^verbatim>\<open>KeyValue<T>\<close> is a plain object \<^verbatim>\<open>{}\<close> that is indexed by strings. Its own
  properties are an association list in the order of their creation. A read
  \<^verbatim>\<open>obj[k]\<close> of a key that is no own property goes on to \<^verbatim>\<open>Object.prototype\<close>,
  which answers for the names of its members: with a function, or under
  \<^verbatim>\<open>__proto__\<close> with the prototype itself. All of these are truthy, none is a
  number, a string or an array.
\<close>

type_synonym 'v KeyValue = "(string \<times> 'v) list"

definition object_prototype_keys :: "string list" where
  "object_prototype_keys =
     [''constructor'', ''__defineGetter__'', ''__defineSetter__'', ''hasOwnProperty'',
      ''__lookupGetter__'', ''__lookupSetter__'', ''isPrototypeOf'', ''propertyIsEnumerable'',
      ''toString'', ''valueOf'', ''__proto__'', ''toLocaleString'']"

definition inherited :: "string \<Rightarrow> bool" where
  "inherited k \<longleftrightarrow> k \<in> set object_prototype_keys"

text \<open>
  What \<^verbatim>\<open>obj[k]\<close> reads: \<^verbatim>\<open>undefined\<close>, the value of an own property, or a
  member of \<^verbatim>\<open>Object.prototype\<close>. The key \<^verbatim>\<open>__proto__\<close> is an accessor of the
  prototype: it is never an own property of an object that assignments have filled.
\<close>

datatype 'v property = Undefined | Own 'v | Inherited

definition object_get :: "'v KeyValue \<Rightarrow> string \<Rightarrow> 'v property" where
  "object_get obj k =
     (if k = ''__proto__'' then Inherited
      else (case map_of obj k of
              Some v \<Rightarrow> Own v
            | None \<Rightarrow> if inherited k then Inherited else Undefined))"

text \<open>
  \<^verbatim>\<open>obj[k] = v\<close> for a value that is no object (a number, a boolean, a string):
  under \<^verbatim>\<open>__proto__\<close> the setter of the prototype ignores such a value and nothing is
  stored; under every other key the own property is created or overwritten.
  \<^verbatim>\<open>delete obj[k]\<close> removes an own property.
\<close>

definition object_set :: "string \<Rightarrow> 'v \<Rightarrow> 'v KeyValue \<Rightarrow> 'v KeyValue" where
  "object_set k v obj = (if k = ''__proto__'' then obj else AList.update k v obj)"

definition object_delete :: "string \<Rightarrow> 'v KeyValue \<Rightarrow> 'v KeyValue" where
  "object_delete k obj = AList.delete k obj"

text \<open>
  \<^verbatim>\<open>Object.keys(obj)\<close>: the own keys that are written as array indices (a decimal
  numeral without a leading zero, below \<open>2\<^sup>3\<^sup>2 - 1\<close>) in ascending numeric order, and
  after them the other keys in the order of their creation.
\<close>

definition digit :: "char \<Rightarrow> int option" where
  "digit c = (let n = (of_char c :: int) in if 48 \<le> n \<and> n \<le> 57 then Some (n - 48) else None)"

definition array_index :: "string \<Rightarrow> int option" where
  "array_index k =
     (if k \<noteq> [] \<and> list_all (\<lambda>c. digit c \<noteq> None) k \<and> (hd k \<noteq> CHR ''0'' \<or> k = ''0'') then
        (let n = foldl (\<lambda>a c. 10 * a + (case digit c of None \<Rightarrow> 0 | Some d \<Rightarrow> d)) 0 k
         in if n < 4294967295 then Some n else None)
      else None)"

definition object_keys :: "'v KeyValue \<Rightarrow> string list" where
  "object_keys obj =
     (let ks = map fst obj
      in map snd (sort_key fst (List.map_filter (\<lambda>k. map_option (\<lambda>n. (n, k)) (array_index k)) ks))
         @ filter (\<lambda>k. array_index k = None) ks)"

text \<open>
  The truth of what a read answers: of a flag (\<^verbatim>\<open>KeyValue<boolean>\<close>), and of an
  object such as a cell or an array, which is truthy whenever it is there.
\<close>

definition holds :: "bool property \<Rightarrow> bool" where
  "holds p = (case p of Undefined \<Rightarrow> False | Own b \<Rightarrow> b | Inherited \<Rightarrow> True)"

definition present :: "'v property \<Rightarrow> bool" where
  "present p = (case p of Undefined \<Rightarrow> False | Own v \<Rightarrow> True | Inherited \<Rightarrow> True)"

subsection \<open>Cells\<close>

text \<open>
  An edge terminal is a fixed point or a reference to a cell by its id. The only point
  that \<^verbatim>\<open>model.ts\<close> writes is \<^verbatim>\<open>{ x: 0, y: 0 }\<close>; coordinates are integers here.
\<close>

datatype terminal = Point int int | CellRef string

datatype shape = Node | Edge terminal terminal

text \<open>
  Modelled from the spec: the classes \<^verbatim>\<open>Cell\<close>, \<^verbatim>\<open>Node\<close> and \<^verbatim>\<open>Edge\<close> are not under
  \<^verbatim>\<open>src/\<close>. By the spec (3) a cell is a node or an edge and has an id that does not
  change, a \<^verbatim>\<open>zIndex\<close> that may be unset, the back reference \<^verbatim>\<open>model\<close> (null, this
  model, or another model) and its children; \<^verbatim>\<open>isNode()\<close> and \<^verbatim>\<open>isEdge()\<close> tell the
  variant. A cell object is identified with its id: the collection holds the current
  state of every cell that it holds.
\<close>

datatype owner = NoModel | ThisModel | OtherModel

datatype cell =
  Cell (cid: string) (shape: shape) (zIndex: "int option") (cmodel: owner) (children: "cell list")

definition isEdge :: "cell \<Rightarrow> bool" where
  "isEdge c = (case shape c of Edge s t \<Rightarrow> True | Node \<Rightarrow> False)"

definition isNode :: "cell \<Rightarrow> bool" where
  "isNode c = (case shape c of Node \<Rightarrow> True | Edge s t \<Rightarrow> False)"

subsection \<open>Options and events\<close>

record add_options =
  dry :: bool

text \<open>The flags \<^verbatim>\<open>clear\<close> and \<^verbatim>\<open>disconnectEdges\<close> of the options of a removal.\<close>

record remove_options =
  opt_clear :: bool
  opt_disconnectEdges :: bool

text \<open>
  \<^verbatim>\<open>incoming\<close> and \<^verbatim>\<open>outgoing\<close> are tested against null, so an absent flag
  (\<open>None\<close>) differs from \<^verbatim>\<open>false\<close>; the other flags are only tested for truth.
\<close>

record connected_options =
  incoming :: "bool option"
  outgoing :: "bool option"
  indirect :: bool
  deep :: bool
  enclosed :: bool

datatype event =
    BatchStart string
  | BatchStop string
  | CellAdded string
  | NodeAdded string
  | EdgeAdded string
  | CellRemoved string remove_options
  | NodeRemoved string
  | EdgeRemoved string
  | Reseted "string list" "string list"

text \<open>
  What a batch counter can hold. \<^verbatim>\<open>startBatch\<close> and \<^verbatim>\<open>stopBatch\<close> store the value
  of an arithmetic expression: a number (an integer here; the counters stay far below
  \<open>2\<^sup>5\<^sup>3\<close>), \<^verbatim>\<open>NaN\<close>, or the string that \<^verbatim>\<open>+\<close> builds when its left operand is a
  function or an object: the text of that operand followed by the digit 1. Such a
  string is truthy and converts to \<^verbatim>\<open>NaN\<close>.
\<close>

datatype counter = Number int | NaN | Text

text \<open>
  The state of a model. \<open>removing\<close> holds the cells that have left the collection while
  their back reference \<^verbatim>\<open>model\<close> still names this model.
\<close>

record model =
  collection :: "cell list"
  removing :: "cell list"
  nodes :: "bool KeyValue"
  edges :: "bool KeyValue"
  batches :: "counter KeyValue"
  addings :: "string set"
  events :: "event list"

text \<open>
  \<^verbatim>\<open>notify(name, args)\<close> triggers the event on the model (and on the graph that owns
  it, under the same or a prefixed name); here it appends the event to the log.
\<close>

definition notify :: "event \<Rightarrow> model \<Rightarrow> model" where
  "notify ev M = M\<lparr>events := events M @ [ev]\<rparr>"

subsection \<open>Batches\<close>

text \<open>
  The operators of \<^verbatim>\<open>(this.batches[name] || 0) + 1\<close>,
  \<^verbatim>\<open>(this.batches[name] || 0) - 1\<close> and \<^verbatim>\<open>this.batches[batch] > 0\<close>. \<^verbatim>\<open>x || 0\<close>
  is 0 when \<^verbatim>\<open>x\<close> is \<^verbatim>\<open>undefined\<close>, 0 or \<^verbatim>\<open>NaN\<close> and is \<^verbatim>\<open>x\<close> otherwise.
  \<^verbatim>\<open>+\<close> adds numbers and appends to anything that is not one; \<^verbatim>\<open>-\<close> and \<^verbatim>\<open>>\<close>
  convert their operands to numbers, and a function, an object or such a string
  converts to \<^verbatim>\<open>NaN\<close>.
\<close>

definition or_zero :: "counter property \<Rightarrow> counter property" where
  "or_zero x =
     (case x of
        Undefined \<Rightarrow> Own (Number 0)
      | Own c \<Rightarrow> (case c of Number n \<Rightarrow> Own (Number n) | NaN \<Rightarrow> Own (Number 0) | Text \<Rightarrow> Own Text)
      | Inherited \<Rightarrow> Inherited)"

definition plus_one :: "counter property \<Rightarrow> counter" where
  "plus_one x =
     (case x of
        Undefined \<Rightarrow> NaN
      | Own c \<Rightarrow> (case c of Number n \<Rightarrow> Number (n + 1) | NaN \<Rightarrow> NaN | Text \<Rightarrow> Text)
      | Inherited \<Rightarrow> Text)"

definition minus_one :: "counter property \<Rightarrow> counter" where
  "minus_one x =
     (case x of
        Undefined \<Rightarrow> NaN
      | Own c \<Rightarrow> (case c of Number n \<Rightarrow> Number (n - 1) | NaN \<Rightarrow> NaN | Text \<Rightarrow> NaN)
      | Inherited \<Rightarrow> NaN)"

definition greater_zero :: "counter property \<Rightarrow> bool" where
  "greater_zero x =
     (case x of
        Undefined \<Rightarrow> False
      | Own c \<Rightarrow> (case c of Number n \<Rightarrow> 0 < n | NaN \<Rightarrow> False | Text \<Rightarrow> False)
      | Inherited \<Rightarrow> False)"

text \<open>\<^verbatim>\<open>this.batches[name] || 0\<close>.\<close>

definition batch_count :: "model \<Rightarrow> string \<Rightarrow> counter property" where
  "batch_count M name = or_zero (object_get (batches M) name)"

definition startBatch :: "string \<Rightarrow> model \<Rightarrow> model" where
  "startBatch name M =
     notify (BatchStart name)
       (M\<lparr>batches := object_set name (plus_one (batch_count M name)) (batches M)\<rparr>)"

definition stopBatch :: "string \<Rightarrow> model \<Rightarrow> model" where
  "stopBatch name M =
     notify (BatchStop name)
       (M\<lparr>batches := object_set name (minus_one (batch_count M name)) (batches M)\<rparr>)"

text \<open>
  \<^verbatim>\<open>hasActiveBatch(name: string | string[] = Object.keys(this.batches))\<close>: some named
  counter is positive.
\<close>

datatype batch_names = AllBatches | OneBatch string | Batches "string list"

definition hasActiveBatch :: "batch_names \<Rightarrow> model \<Rightarrow> bool" where
  "hasActiveBatch arg M =
     (let names = (case arg of AllBatches \<Rightarrow> object_keys (batches M)
                   | OneBatch name \<Rightarrow> [name]
                   | Batches ns \<Rightarrow> ns)
      in list_ex (\<lambda>batch. greater_zero (object_get (batches M) batch)) names)"

text \<open>
  The counter of a batch name is zero: no counter is stored under the name, or 0 is.
\<close>

definition idle :: "model \<Rightarrow> string \<Rightarrow> bool" where
  "idle M name = (case map_of (batches M) name of None \<Rightarrow> True | Some c \<Rightarrow> c = Number 0)"

subsection \<open>Results\<close>

text \<open>
  A call either returns or throws. \<open>TypeError\<close> is the exception JavaScript raises when a
  method is called on \<^verbatim>\<open>undefined\<close>, or when what is called is \<^verbatim>\<open>undefined\<close> and no
  function. The recursive functions carry a bound on the
  depth of their recursion; \<open>OutOfFuel\<close> says that the bound was reached, so a call that
  recurses forever is one that is \<open>OutOfFuel\<close> for every bound.
\<close>

datatype error = TypeError | OutOfFuel

definition andThen :: "error + 'a \<Rightarrow> ('a \<Rightarrow> error + 'b) \<Rightarrow> error + 'b" where
  "andThen r f = (case r of Inl e \<Rightarrow> Inl e | Inr x \<Rightarrow> f x)"

text \<open>\<^verbatim>\<open>xs.forEach(f)\<close> for a callback that changes the state and may throw.\<close>

fun forEach :: "'a list \<Rightarrow> ('a \<Rightarrow> 's \<Rightarrow> error + 's) \<Rightarrow> 's \<Rightarrow> error + 's" where
  "forEach [] f s = Inr s"
| "forEach (x # xs) f s = (case f x s of Inl e \<Rightarrow> Inl e | Inr s' \<Rightarrow> forEach xs f s')"

subsection \<open>The collection and the cells' own methods\<close>

text \<open>
  Modelled from the spec: the class \<^verbatim>\<open>Collection\<close> (\<^verbatim>\<open>collection.ts\<close>) is not under
  \<^verbatim>\<open>src/\<close>. The spec (3, 4.1) has it as an ordered sequence of cells with lookup by id, in
  which no two cells share an id; \<^verbatim>\<open>get(id)\<close> is the cell of that id, if any,
  \<^verbatim>\<open>has\<close> is the membership test (of an id, or of the id of a cell), and
  \<^verbatim>\<open>toArray()\<close> is a copy of the sequence. The events \<^verbatim>\<open>sorted\<close> and \<^verbatim>\<open>updated\<close>,
  which the collection emits on its own account, are not in the log.
\<close>

definition collection_get :: "cell list \<Rightarrow> string \<Rightarrow> cell option" where
  "collection_get cs i = find (\<lambda>c. cid c = i) cs"

definition collection_has :: "cell list \<Rightarrow> string \<Rightarrow> bool" where
  "collection_has cs i = (collection_get cs i \<noteq> None)"

text \<open>An argument of type \<^verbatim>\<open>Cell | string\<close>.\<close>

datatype cell_arg = ById string | ByCell cell

definition arg_id :: "cell_arg \<Rightarrow> string" where
  "arg_id obj = (case obj of ById i \<Rightarrow> i | ByCell c \<Rightarrow> cid c)"

definition has :: "model \<Rightarrow> cell_arg \<Rightarrow> bool" where
  "has M obj = collection_has (collection M) (arg_id obj)"

definition getCell :: "model \<Rightarrow> string \<Rightarrow> cell option" where
  "getCell M i = collection_get (collection M) i"

definition getCells :: "model \<Rightarrow> cell list" where
  "getCells M = collection M"

text \<open>
  Modelled from the spec: the class \<^verbatim>\<open>Edge\<close> (\<^verbatim>\<open>edge.ts\<close>) is not under
  \<^verbatim>\<open>src/\<close>. The spec (3) says of terminal resolution that \<^verbatim>\<open>getSourceCell()\<close> and
  \<^verbatim>\<open>getTargetCell()\<close> return the referenced cell, or null if the terminal is a bare
  point or the referenced cell no longer exists. \<^verbatim>\<open>getSourceCellId()\<close> and
  \<^verbatim>\<open>getTargetCellId()\<close> give the id the terminal references.

  A cell is set live when it is added and is detached when its back reference
  \<^verbatim>\<open>model\<close> is cleared (3), which \<^verbatim>\<open>afterCellRemoved\<close> does as its last step, after
  \<^verbatim>\<open>disconnectEdges\<close> has compared the id of the removed cell with the ids of the
  cells that the terminals resolve to. So a referenced cell exists as long as the
  collection holds it or its back reference still names the model.
\<close>

definition getSourceCellId :: "cell \<Rightarrow> string option" where
  "getSourceCellId e = (case shape e of Edge (CellRef i) t \<Rightarrow> Some i | _ \<Rightarrow> None)"

definition getTargetCellId :: "cell \<Rightarrow> string option" where
  "getTargetCellId e = (case shape e of Edge s (CellRef i) \<Rightarrow> Some i | _ \<Rightarrow> None)"

definition getTerminalCell :: "model \<Rightarrow> string \<Rightarrow> cell option" where
  "getTerminalCell M i =
     (case getCell M i of
        Some c \<Rightarrow> Some c
      | None \<Rightarrow> find (\<lambda>c. cid c = i) (removing M))"

definition getSourceCell :: "model \<Rightarrow> cell \<Rightarrow> cell option" where
  "getSourceCell M e = (case getSourceCellId e of None \<Rightarrow> None | Some i \<Rightarrow> getTerminalCell M i)"

definition getTargetCell :: "model \<Rightarrow> cell \<Rightarrow> cell option" where
  "getTargetCell M e = (case getTargetCellId e of None \<Rightarrow> None | Some i \<Rightarrow> getTerminalCell M i)"

text \<open>
  Modelled from the spec: \<^verbatim>\<open>Cell.getOutgoingEdges()\<close> and
  \<^verbatim>\<open>Cell.getIncomingEdges()\<close> (\<^verbatim>\<open>cell.ts\<close>) are not under \<^verbatim>\<open>src/\<close>. The spec (3, 4.3)
  speaks of the edges that touch a cell and of a terminal that references a cell: the
  outgoing (incoming) edges of a cell are the edges the model holds whose source (target)
  terminal references the id of the cell, in the order of the collection.
\<close>

definition cell_getOutgoingEdges :: "model \<Rightarrow> cell \<Rightarrow> cell list" where
  "cell_getOutgoingEdges M c =
     filter (\<lambda>e. isEdge e \<and> getSourceCellId e = Some (cid c)) (collection M)"

definition cell_getIncomingEdges :: "model \<Rightarrow> cell \<Rightarrow> cell list" where
  "cell_getIncomingEdges M c =
     filter (\<lambda>e. isEdge e \<and> getTargetCellId e = Some (cid c)) (collection M)"

text \<open>
  Modelled from the spec: \<^verbatim>\<open>Cell.getDescendants({ deep: true })\<close> is not under
  \<^verbatim>\<open>src/\<close>. The spec (3) has the children as a containment forest: the descendants
  are the cells of the subtree below the cell, a parent before its children. A
  descendant that the model holds is read in its current state.
\<close>

fun subtree_below :: "cell \<Rightarrow> cell list" where
  "subtree_below (Cell i sh z m chs) = concat (map (\<lambda>ch. ch # subtree_below ch) chs)"

definition getDescendants :: "model \<Rightarrow> cell \<Rightarrow> cell list" where
  "getDescendants M c =
     map (\<lambda>d. case getCell M (cid d) of None \<Rightarrow> d | Some d' \<Rightarrow> d') (subtree_below c)"

subsection \<open>Connected edges\<close>

text \<open>
  \<^verbatim>\<open>getOutgoingEdges(cell: Cell | string)\<close> resolves an id with \<^verbatim>\<open>getCell\<close> and calls
  the cell's method; an id the model does not hold resolves to \<^verbatim>\<open>undefined\<close>, and the
  method call throws.
\<close>

definition getOutgoingEdges :: "model \<Rightarrow> cell_arg \<Rightarrow> error + cell list" where
  "getOutgoingEdges M obj =
     (case (case obj of ById i \<Rightarrow> getCell M i | ByCell c \<Rightarrow> Some c) of
        None \<Rightarrow> Inl TypeError
      | Some node \<Rightarrow> Inr (cell_getOutgoingEdges M node))"

definition getIncomingEdges :: "model \<Rightarrow> cell_arg \<Rightarrow> error + cell list" where
  "getIncomingEdges M obj =
     (case (case obj of ById i \<Rightarrow> getCell M i | ByCell c \<Rightarrow> Some c) of
        None \<Rightarrow> Inl TypeError
      | Some node \<Rightarrow> Inr (cell_getIncomingEdges M node))"

text \<open>
  The closure \<^verbatim>\<open>collect\<close> of \<^verbatim>\<open>getConnectedEdges\<close>. It reads the flags
  \<^verbatim>\<open>indirect\<close>, \<^verbatim>\<open>incoming\<close> and \<^verbatim>\<open>outgoing\<close> of the enclosing call and works on
  its \<^verbatim>\<open>result\<close> array and its \<^verbatim>\<open>cache\<close> of ids, which are the state here. The
  cache is a plain object whose flags are tested for truth (\<open>cached\<close>). The first
  argument bounds the depth of the recursion.
\<close>

definition cached :: "bool KeyValue \<Rightarrow> string \<Rightarrow> bool" where
  "cached cache k = holds (object_get cache k)"

fun collect ::
  "nat \<Rightarrow> model \<Rightarrow> bool \<Rightarrow> bool \<Rightarrow> bool \<Rightarrow> cell \<Rightarrow> bool \<Rightarrow> cell list \<times> bool KeyValue
    \<Rightarrow> error + cell list \<times> bool KeyValue" where
  "collect 0 M ind inc out cell isOutgoing st = Inl OutOfFuel"
| "collect (Suc n) M ind inc out cell isOutgoing st =
     andThen (if isOutgoing then getOutgoingEdges M (ByCell cell)
              else getIncomingEdges M (ByCell cell))
       (\<lambda>es.
     andThen
       (forEach es
          (\<lambda>edge (result, cache).
             if cached cache (cid edge) then Inr (result, cache)
             else if ind then
               andThen (if inc then collect n M ind inc out edge False
                                      (result @ [edge], object_set (cid edge) True cache)
                        else Inr (result @ [edge], object_set (cid edge) True cache))
                 (\<lambda>st'. if out then collect n M ind inc out edge True st' else Inr st')
             else Inr (result @ [edge], object_set (cid edge) True cache))
          st)
       (\<lambda>(result, cache).
          if ind \<and> isEdge cell then
            (case (if isOutgoing then getTargetCell M cell else getSourceCell M cell) of
               None \<Rightarrow> Inr (result, cache)
             | Some terminal \<Rightarrow>
                 if isEdge terminal \<and> \<not> cached cache (cid terminal)
                 then collect n M ind inc out terminal isOutgoing (result @ [terminal], cache)
                 else Inr (result, cache))
          else Inr (result, cache)))"

text \<open>The closure \<^verbatim>\<open>collectSub\<close> of the \<^verbatim>\<open>deep\<close> branch.\<close>

definition collectSub ::
  "model \<Rightarrow> bool \<Rightarrow> bool KeyValue \<Rightarrow> cell \<Rightarrow> bool \<Rightarrow> cell list \<times> bool KeyValue
    \<Rightarrow> error + cell list \<times> bool KeyValue" where
  "collectSub M encl embedsCache cell isOutgoing st =
     andThen (if isOutgoing then getOutgoingEdges M (ById (cid cell))
              else getIncomingEdges M (ById (cid cell)))
       (\<lambda>es. forEach es
          (\<lambda>edge (result, cache).
             if \<not> cached cache (cid edge) then
               (if \<not> encl
                   \<and> (case getSourceCell M edge of None \<Rightarrow> False
                       | Some s \<Rightarrow> cached embedsCache (cid s))
                   \<and> (case getTargetCell M edge of None \<Rightarrow> False
                       | Some t \<Rightarrow> cached embedsCache (cid t))
                then Inr (result, cache)
                else Inr (result @ [edge], object_set (cid edge) True cache))
             else Inr (result, cache))
          st)"

definition getConnectedEdges ::
  "nat \<Rightarrow> model \<Rightarrow> cell_arg \<Rightarrow> connected_options \<Rightarrow> error + cell list" where
  "getConnectedEdges n M cell options =
     (case (case cell of ById i \<Rightarrow> getCell M i | ByCell c \<Rightarrow> Some c) of
        None \<Rightarrow> Inr []
      | Some node \<Rightarrow>
          (let ind = indirect options;
               both = (incoming options = None \<and> outgoing options = None);
               inc = (both \<or> incoming options = Some True);
               out = (both \<or> outgoing options = Some True)
           in
           andThen (if out then collect n M ind inc out node True ([], []) else Inr ([], []))
             (\<lambda>st1.
           andThen (if inc then collect n M ind inc out node False st1 else Inr st1)
             (\<lambda>st2.
           andThen
             (if deep options then
                (let descendants = getDescendants M node;
                     embedsCache = fold (\<lambda>c embeds. if isNode c then object_set (cid c) True embeds
                                                    else embeds) descendants []
                 in forEach descendants
                      (\<lambda>c st.
                         if isEdge c then Inr st
                         else
                           andThen (if out then collectSub M (enclosed options) embedsCache c True st
                                    else Inr st)
                             (\<lambda>st'. if inc then collectSub M (enclosed options) embedsCache c False st'
                                     else Inr st'))
                      st2)
              else Inr st2)
             (\<lambda>st3. Inr (fst st3))))))"

subsection \<open>Subgraphs\<close>

text \<open>
  The local variables of \<^verbatim>\<open>getSubGraph\<close>: the result array, the cache
  (\<^verbatim>\<open>KeyValue<Cell>\<close>) of the cells that are in it, and the nodes and edges that the
  later passes run over. A read \<^verbatim>\<open>cache[id]\<close> is tested for truth (\<open>known\<close>). Every
  assignment \<^verbatim>\<open>cache[id] = cell\<close> stands behind the test \<^verbatim>\<open>!cache[id]\<close>, so it is
  reached for a key that reads \<^verbatim>\<open>undefined\<close> only, where it creates the own property.
\<close>

record subgraph_state =
  subgraph :: "cell list"
  sg_cache :: "cell KeyValue"
  sg_nodes :: "cell list"
  sg_edges :: "cell list"

definition known :: "cell KeyValue \<Rightarrow> string \<Rightarrow> bool" where
  "known cache k = present (object_get cache k)"

text \<open>The closure \<^verbatim>\<open>collect\<close> of \<^verbatim>\<open>getSubGraph\<close>.\<close>

definition sg_collect :: "cell \<Rightarrow> subgraph_state \<Rightarrow> subgraph_state" where
  "sg_collect cell st =
     (if \<not> known (sg_cache st) (cid cell) then
        st\<lparr>subgraph := subgraph st @ [cell],
           sg_cache := AList.update (cid cell) cell (sg_cache st),
           sg_edges := (if isEdge cell then sg_edges st @ [cell] else sg_edges st),
           sg_nodes := (if isNode cell then sg_nodes st @ [cell] else sg_nodes st)\<rparr>
      else st)"

text \<open>The first pass: the input cells and, with \<^verbatim>\<open>deep\<close>, their descendants.\<close>

definition sg_expand :: "model \<Rightarrow> bool \<Rightarrow> cell list \<Rightarrow> subgraph_state \<Rightarrow> subgraph_state" where
  "sg_expand M dp cells st =
     fold (\<lambda>cell st. let st1 = sg_collect cell st
                      in if dp then fold sg_collect (getDescendants M cell) st1 else st1)
       cells st"

text \<open>The second pass, for one terminal of one edge: a resolved cell that is not cached.\<close>

definition sg_terminal :: "cell option \<Rightarrow> subgraph_state \<Rightarrow> subgraph_state" where
  "sg_terminal term st =
     (case term of
        None \<Rightarrow> st
      | Some c \<Rightarrow>
          if \<not> known (sg_cache st) (cid c) then
            st\<lparr>subgraph := subgraph st @ [c],
               sg_cache := AList.update (cid c) c (sg_cache st),
               sg_nodes := (if isNode c then sg_nodes st @ [c] else sg_nodes st)\<rparr>
          else st)"

definition sg_terminals :: "model \<Rightarrow> cell list \<Rightarrow> subgraph_state \<Rightarrow> subgraph_state" where
  "sg_terminals M es st =
     fold (\<lambda>edge st. sg_terminal (getTargetCell M edge) (sg_terminal (getSourceCell M edge) st))
       es st"

text \<open>The third pass, for one connected edge of one node.\<close>

definition sg_connect :: "model \<Rightarrow> cell \<Rightarrow> subgraph_state \<Rightarrow> subgraph_state" where
  "sg_connect M edge st =
     (if \<not> known (sg_cache st) (cid edge)
         \<and> (case getSourceCell M edge of None \<Rightarrow> False | Some s \<Rightarrow> known (sg_cache st) (cid s))
         \<and> (case getTargetCell M edge of None \<Rightarrow> False | Some t \<Rightarrow> known (sg_cache st) (cid t))
      then st\<lparr>subgraph := subgraph st @ [edge],
              sg_cache := AList.update (cid edge) edge (sg_cache st)\<rparr>
      else st)"

text \<open>
  \<^verbatim>\<open>getSubGraph(cells, options)\<close>. Its options hold \<^verbatim>\<open>deep\<close> only, and the object is
  handed on to \<^verbatim>\<open>getConnectedEdges\<close>, where the other flags are absent.
\<close>

definition getSubGraph :: "nat \<Rightarrow> model \<Rightarrow> cell list \<Rightarrow> bool \<Rightarrow> error + cell list" where
  "getSubGraph n M cells dp =
     (let st1 = sg_expand M dp cells
                  \<lparr>subgraph = [], sg_cache = [], sg_nodes = [], sg_edges = []\<rparr>;
          st2 = sg_terminals M (sg_edges st1) st1
      in andThen
           (forEach (sg_nodes st2)
              (\<lambda>node st.
                 andThen
                   (getConnectedEdges n M (ByCell node)
                      \<lparr>incoming = None, outgoing = None, indirect = False, deep = dp,
                       enclosed = False\<rparr>)
                   (\<lambda>es. Inr (fold (sg_connect M) es st)))
              st2)
           (\<lambda>st3. Inr (subgraph st3)))"

text \<open>
  The expanded input of \<^verbatim>\<open>getSubGraph\<close>: every input cell, followed with \<^verbatim>\<open>deep\<close> by
  its descendants. The first pass runs \<^verbatim>\<open>collect\<close> over these cells in this order.
\<close>

definition sg_input :: "model \<Rightarrow> bool \<Rightarrow> cell list \<Rightarrow> cell list" where
  "sg_input M dp cells = concat (map (\<lambda>c. c # (if dp then getDescendants M c else [])) cells)"

text \<open>The cells that the terminals of an edge resolve to.\<close>

definition terminals_of :: "model \<Rightarrow> cell \<Rightarrow> cell set" where
  "terminals_of M e = set_option (getSourceCell M e) \<union> set_option (getTargetCell M e)"

text \<open>An edge whose two terminals resolve to cells with ids among those of \<open>R\<close>.\<close>

definition sg_closed :: "model \<Rightarrow> cell list \<Rightarrow> cell \<Rightarrow> bool" where
  "sg_closed M R c \<longleftrightarrow>
     (\<exists>s t. getSourceCell M c = Some s \<and> getTargetCell M c = Some t
            \<and> cid s \<in> cid ` set R \<and> cid t \<in> cid ` set R)"

text \<open>
  A cell whose id is not the name of a member of \<^verbatim>\<open>Object.prototype\<close>, and a model
  all of whose cells are such.
\<close>

definition plain :: "cell \<Rightarrow> bool" where
  "plain c \<longleftrightarrow> \<not> inherited (cid c)"

definition plain_model :: "model \<Rightarrow> bool" where
  "plain_model M \<longleftrightarrow> list_all plain (collection M) \<and> list_all plain (removing M)"

text \<open>
  Notions for the proofs: the keys that the cache of \<^verbatim>\<open>getSubGraph\<close> answers for are
  the ids of its result array and the names that \<^verbatim>\<open>Object.prototype\<close> answers for;
  what holds of the state during the third pass, which started in \<open>st2\<close>; and the body
  of the loop of \<^verbatim>\<open>collect\<close> in \<^verbatim>\<open>getConnectedEdges\<close> when \<^verbatim>\<open>indirect\<close> is off.
\<close>

definition sg_cached :: "subgraph_state \<Rightarrow> bool" where
  "sg_cached st \<longleftrightarrow>
     (\<forall>k. known (sg_cache st) k \<longleftrightarrow> k \<in> cid ` set (subgraph st) \<or> inherited k)"

definition sg_third :: "model \<Rightarrow> subgraph_state \<Rightarrow> subgraph_state \<Rightarrow> bool" where
  "sg_third M st2 st \<longleftrightarrow>
     sg_cached st \<and> set (subgraph st2) \<subseteq> set (subgraph st)
     \<and> (\<forall>c\<in>set (subgraph st). c \<in> set (subgraph st2) \<or> sg_closed M (subgraph st) c)"

definition collect_step ::
  "cell \<Rightarrow> cell list \<times> bool KeyValue \<Rightarrow> error + cell list \<times> bool KeyValue" where
  "collect_step edge st =
     (if cached (snd st) (cid edge) then Inr st
      else Inr (fst st @ [edge], object_set (cid edge) True (snd st)))"

text \<open>
  What holds of the result and the cache of \<^verbatim>\<open>getConnectedEdges\<close> as long as every
  pushed edge is cached: the cache answers for the ids of the result, each of which is
  there once.
\<close>

definition collected :: "cell list \<times> bool KeyValue \<Rightarrow> bool" where
  "collected st \<longleftrightarrow> (\<forall>c\<in>set (fst st). cached (snd st) (cid c)) \<and> distinct (map cid (fst st))"

subsection \<open>Shortest paths\<close>

text \<open>
  \<^verbatim>\<open>getCellsFromCache(cache)\<close>: the cells that the model holds under the keys of the
  cache, in the order in which \<^verbatim>\<open>Object.keys\<close> lists them.
\<close>

definition getCellsFromCache :: "model \<Rightarrow> bool KeyValue \<Rightarrow> cell list" where
  "getCellsFromCache M cache = List.map_filter (getCell M) (object_keys cache)"

definition getNodes :: "model \<Rightarrow> cell list" where
  "getNodes M = getCellsFromCache M (nodes M)"










text \<open>
  The adjacency list that \<^verbatim>\<open>getShortestPath\<close> builds in a plain object. \<open>adj_key\<close>
  is \<^verbatim>\<open>if (!adjacencyList[k]) adjacencyList[k] = []\<close>: for a key that
  \<^verbatim>\<open>Object.prototype\<close> answers for the test fails and no own array is created.
  \<open>adj_push\<close> is \<^verbatim>\<open>adjacencyList[k].push(v)\<close>: it appends to the own array, and
  it throws when the read answers a member of the prototype, which has no method
  \<^verbatim>\<open>push\<close>. An id is tested for truth: the empty string fails.
\<close>

definition adj_key :: "string \<Rightarrow> string list KeyValue \<Rightarrow> string list KeyValue" where
  "adj_key k adj = (if \<not> present (object_get adj k) then AList.update k [] adj else adj)"





text \<open>
  The arcs of an adjacency list, and the arcs that the edges of the model stand for: one
  from source to target for every edge whose terminals both reference a cell, and the
  reverse one unless \<^verbatim>\<open>directed\<close> is set.
\<close>

definition adj_arcs :: "string list KeyValue \<Rightarrow> (string \<times> string) set" where
  "adj_arcs adj = {(u, v). \<exists>vs. map_of adj u = Some vs \<and> v \<in> set vs}"






subsection \<open>Adding cells\<close>

text \<open>
  Modelled from the spec: \<^verbatim>\<open>Collection.last()\<close> and \<^verbatim>\<open>Collection.add\<close> are not
  under \<^verbatim>\<open>src/\<close>. The spec (3, 4.1) keeps the sequence in ascending order of
  \<^verbatim>\<open>zIndex\<close>, re-sorted on every structural change, with \<^verbatim>\<open>last()\<close> the cell of
  the highest \<^verbatim>\<open>zIndex\<close>; \<^verbatim>\<open>add\<close> appends the cell and is a silent no-op (\<open>None\<close>
  here: no change and no event) when the id is already held.
\<close>

definition zkey :: "cell \<Rightarrow> int" where
  "zkey c = (case zIndex c of None \<Rightarrow> 0 | Some z \<Rightarrow> z)"

definition collection_last :: "cell list \<Rightarrow> cell option" where
  "collection_last cs = (if cs = [] then None else Some (last cs))"

definition collection_add :: "cell \<Rightarrow> cell list \<Rightarrow> cell list option" where
  "collection_add c cs =
     (if collection_has cs (cid c) then None else Some (sort_key zkey (cs @ [c])))"

text \<open>\<^verbatim>\<open>getMaxZIndex()\<close>: \<^verbatim>\<open>last ? last.getZIndex() || 0 : 0\<close>.\<close>

definition getMaxZIndex :: "model \<Rightarrow> int" where
  "getMaxZIndex M = (case collection_last (collection M) of None \<Rightarrow> 0 | Some l \<Rightarrow> zkey l)"

definition prepareCell :: "model \<Rightarrow> cell \<Rightarrow> add_options \<Rightarrow> cell" where
  "prepareCell M cell options =
     Cell (cid cell) (shape cell)
       (case zIndex cell of None \<Rightarrow> Some (getMaxZIndex M + 1) | Some z \<Rightarrow> Some z)
       (if cmodel cell = NoModel \<and> \<not> dry options then ThisModel else cmodel cell)
       (children cell)"

definition onCellAdded :: "cell \<Rightarrow> model \<Rightarrow> model" where
  "onCellAdded cell M =
     (if isEdge cell then M\<lparr>edges := object_set (cid cell) True (edges M)\<rparr>
      else M\<lparr>nodes := object_set (cid cell) True (nodes M)\<rparr>)"

text \<open>The listener that \<^verbatim>\<open>setup()\<close> registers for the collection's \<^verbatim>\<open>added\<close> event.\<close>

definition on_added :: "cell \<Rightarrow> model \<Rightarrow> model" where
  "on_added cell M =
     (let M1 = notify (CellAdded (cid cell)) (onCellAdded cell M)
      in if isNode cell then notify (NodeAdded (cid cell)) M1
         else if isEdge cell then notify (EdgeAdded (cid cell)) M1
         else M1)"

text \<open>\<^verbatim>\<open>this.collection.add(cell, options)\<close> with the listener run on the event.\<close>

definition collection_add_cell :: "cell \<Rightarrow> model \<Rightarrow> model" where
  "collection_add_cell cell M =
     (case collection_add cell (collection M) of
        None \<Rightarrow> M
      | Some cs \<Rightarrow> on_added cell (M\<lparr>collection := cs\<rparr>))"

text \<open>
  \<^verbatim>\<open>addCell(cell, options)\<close> for one cell. The children of the argument are the cell
  objects below it; \<^verbatim>\<open>addings\<close> is keyed by the id of the cell.
\<close>

fun addCell :: "cell \<Rightarrow> add_options \<Rightarrow> model \<Rightarrow> model" where
  "addCell (Cell i sh z m chs) options M =
     (if \<not> has M (ByCell (Cell i sh z m chs)) \<and> i \<notin> addings M then
        (let M1 = M\<lparr>addings := insert i (addings M)\<rparr>;
             M2 = collection_add_cell (prepareCell M1 (Cell i sh z m chs) options) M1;
             M3 = fold (\<lambda>child. addCell child options) chs M2
         in M3\<lparr>addings := addings M3 - {i}\<rparr>)
      else M)"


subsection \<open>Resetting\<close>


text \<open>
  Modelled from the spec: \<^verbatim>\<open>Collection.reset\<close> is not under \<^verbatim>\<open>src/\<close>. The spec (4.1)
  has it replace the whole contents and emit one \<^verbatim>\<open>reseted\<close> event with the previous
  and the current arrays. No two cells of a collection share an id (3): of two cells
  with one id the first stays, as \<^verbatim>\<open>add\<close> leaves it.
\<close>

definition collection_reset :: "cell list \<Rightarrow> cell list" where
  "collection_reset items =
     fold (\<lambda>c cs. case collection_add c cs of None \<Rightarrow> cs | Some cs' \<Rightarrow> cs') items []"


subsection \<open>Construction\<close>

text \<open>
  \<^verbatim>\<open>constructor(cells: Cell[] = [])\<close>: the cells go into \<^verbatim>\<open>new Collection(cells)\<close>,
  and \<^verbatim>\<open>setup()\<close> registers the listeners of the model after that. No \<^verbatim>\<open>added\<close>
  event reaches the model for these cells: \<^verbatim>\<open>onCellAdded\<close> does not see them, and
  \<^verbatim>\<open>prepareCell\<close> is not called on them.

  Modelled from the spec: the constructor of \<^verbatim>\<open>Collection\<close> is not under \<^verbatim>\<open>src/\<close>. The
  collection that it builds holds the cells as one that \<^verbatim>\<open>reset\<close> has filled.
\<close>

definition constructor :: "cell list \<Rightarrow> model" where
  "constructor cells =
     \<lparr>collection = collection_reset cells, removing = [], nodes = [], edges = [],
      batches = [], addings = {}, events = []\<rparr>"

text \<open>\<^verbatim>\<open>new Model()\<close>: an empty collection, empty caches, no batch.\<close>

definition new_model :: model where
  "new_model = constructor []"

subsection \<open>Removing cells\<close>

text \<open>
  Modelled from the spec: \<^verbatim>\<open>Edge.setSource\<close> and \<^verbatim>\<open>Edge.setTarget\<close> are not under
  \<^verbatim>\<open>src/\<close>; they replace one terminal of the edge (4.2). The edge is the one the
  model holds under that id.
\<close>

definition set_source :: "terminal \<Rightarrow> cell \<Rightarrow> cell" where
  "set_source p c =
     (case shape c of
        Node \<Rightarrow> c
      | Edge s t \<Rightarrow> Cell (cid c) (Edge p t) (zIndex c) (cmodel c) (children c))"

definition set_target :: "terminal \<Rightarrow> cell \<Rightarrow> cell" where
  "set_target p c =
     (case shape c of
        Node \<Rightarrow> c
      | Edge s t \<Rightarrow> Cell (cid c) (Edge s p) (zIndex c) (cmodel c) (children c))"

definition setSource :: "string \<Rightarrow> terminal \<Rightarrow> model \<Rightarrow> model" where
  "setSource i p M =
     M\<lparr>collection := map (\<lambda>c. if cid c = i then set_source p c else c) (collection M)\<rparr>"

definition setTarget :: "string \<Rightarrow> terminal \<Rightarrow> model \<Rightarrow> model" where
  "setTarget i p M =
     M\<lparr>collection := map (\<lambda>c. if cid c = i then set_target p c else c) (collection M)\<rparr>"

text \<open>The options of a call \<^verbatim>\<open>getConnectedEdges(cell)\<close> that passes none.\<close>

definition no_options :: connected_options where
  "no_options =
     \<lparr>incoming = None, outgoing = None, indirect = False, deep = False, enclosed = False\<rparr>"

text \<open>
  \<^verbatim>\<open>removeEdges(cell, options)\<close> calls \<^verbatim>\<open>edge.remove(options)\<close> on every connected
  edge. \<^verbatim>\<open>Cell.remove\<close> is not under \<^verbatim>\<open>src/\<close>: it is the argument \<open>rm\<close> of the
  functions below, and \<open>removeCell\<close> binds it.
\<close>

definition removeEdges ::
  "(cell \<Rightarrow> remove_options \<Rightarrow> model \<Rightarrow> error + model) \<Rightarrow> nat \<Rightarrow> cell_arg \<Rightarrow> remove_options
    \<Rightarrow> model \<Rightarrow> error + model" where
  "removeEdges rm n cell options M =
     andThen (getConnectedEdges n M cell no_options)
       (\<lambda>es. forEach es (\<lambda>edge. rm edge options) M)"

definition disconnectEdges :: "nat \<Rightarrow> cell_arg \<Rightarrow> remove_options \<Rightarrow> model \<Rightarrow> error + model" where
  "disconnectEdges n cell options M =
     (let cellId = arg_id cell in
      andThen (getConnectedEdges n M cell no_options)
        (\<lambda>es. forEach es
           (\<lambda>edge M.
              let sourceCell = getSourceCell M edge;
                  targetCell = getTargetCell M edge;
                  M1 = (if (case sourceCell of None \<Rightarrow> False | Some s \<Rightarrow> cid s = cellId)
                        then setSource (cid edge) (Point 0 0) M else M);
                  M2 = (if (case targetCell of None \<Rightarrow> False | Some t \<Rightarrow> cid t = cellId)
                        then setTarget (cid edge) (Point 0 0) M1 else M1)
              in Inr M2)
           M))"

text \<open>
  \<^verbatim>\<open>afterCellRemoved\<close>: the clean-up of the connected edges, and after it
  \<^verbatim>\<open>if (cell.model === this) cell.model = null\<close>, which ends the time in which the
  cell has left the collection and still names the model.
\<close>

definition afterCellRemoved ::
  "(cell \<Rightarrow> remove_options \<Rightarrow> model \<Rightarrow> error + model) \<Rightarrow> nat \<Rightarrow> cell \<Rightarrow> remove_options
    \<Rightarrow> model \<Rightarrow> error + model" where
  "afterCellRemoved rm n cell options M =
     andThen
       (if \<not> opt_clear options then
          (if opt_disconnectEdges options then disconnectEdges n (ByCell cell) options M
           else removeEdges rm n (ByCell cell) options M)
        else Inr M)
       (\<lambda>M1. Inr (if cmodel cell = ThisModel
                   then M1\<lparr>removing := filter (\<lambda>c. cid c \<noteq> cid cell) (removing M1)\<rparr>
                   else M1))"

definition onCellRemoved ::
  "(cell \<Rightarrow> remove_options \<Rightarrow> model \<Rightarrow> error + model) \<Rightarrow> nat \<Rightarrow> cell \<Rightarrow> remove_options
    \<Rightarrow> model \<Rightarrow> error + model" where
  "onCellRemoved rm n cell options M =
     afterCellRemoved rm n cell options
       (if isEdge cell then M\<lparr>edges := object_delete (cid cell) (edges M)\<rparr>
        else M\<lparr>nodes := object_delete (cid cell) (nodes M)\<rparr>)"

text \<open>The listener that \<^verbatim>\<open>setup()\<close> registers for the collection's \<^verbatim>\<open>removed\<close> event.\<close>

definition on_removed ::
  "(cell \<Rightarrow> remove_options \<Rightarrow> model \<Rightarrow> error + model) \<Rightarrow> nat \<Rightarrow> cell \<Rightarrow> remove_options
    \<Rightarrow> model \<Rightarrow> error + model" where
  "on_removed rm n cell options M =
     andThen (onCellRemoved rm n cell options M)
       (\<lambda>M1. let M2 = notify (CellRemoved (cid cell) options) M1
              in Inr (if isNode cell then notify (NodeRemoved (cid cell)) M2
                      else if isEdge cell then notify (EdgeRemoved (cid cell)) M2
                      else M2))"

text \<open>
  Modelled from the spec: \<^verbatim>\<open>Collection.remove\<close> is not under \<^verbatim>\<open>src/\<close>. The spec (4.1)
  has it delete the cell and emit a removal event that carries the removed cell and the
  options. The cell it deletes is the one held under the id of its argument. A cell
  whose back reference names the model goes on to exist for the resolution of terminals
  (\<open>removing\<close>) while the listener runs.
\<close>

definition collection_remove ::
  "(cell \<Rightarrow> remove_options \<Rightarrow> model \<Rightarrow> error + model) \<Rightarrow> cell \<Rightarrow> remove_options
    \<Rightarrow> model \<Rightarrow> error + model" where
  "collection_remove listener cell options M =
     (case collection_get (collection M) (cid cell) of
        None \<Rightarrow> Inr M
      | Some held \<Rightarrow>
          listener held options
            (M\<lparr>collection := filter (\<lambda>c. cid c \<noteq> cid cell) (collection M),
               removing := (if cmodel held = ThisModel then held # removing M
                            else removing M)\<rparr>))"

text \<open>
  \<^verbatim>\<open>removeCell(obj, options)\<close>. The guard is evaluated first; the removal itself uses
  one unit of the bound for every removal that it nests.

  Modelled from the spec: \<^verbatim>\<open>Cell.remove(options)\<close> is not under \<^verbatim>\<open>src/\<close>. By the spec
  (4.2) \<^verbatim>\<open>removeEdges\<close> removes every connected edge and \<^verbatim>\<open>clear\<close> removes every
  cell, both through this call: the cell leaves the model as by
  \<^verbatim>\<open>removeCell(cell, options)\<close>. The spec does not say what the call does with the
  parent and the children of the cell, and nothing is done with them here.
\<close>

definition removal_target :: "model \<Rightarrow> cell_arg \<Rightarrow> cell option" where
  "removal_target M obj =
     (case (case obj of ById i \<Rightarrow> getCell M i | ByCell c \<Rightarrow> Some c) of
        None \<Rightarrow> None
      | Some cell \<Rightarrow> if has M (ByCell cell) then Some cell else None)"

fun removeCell :: "nat \<Rightarrow> cell_arg \<Rightarrow> remove_options \<Rightarrow> model \<Rightarrow> error + model" where
  "removeCell 0 obj options M =
     (case removal_target M obj of None \<Rightarrow> Inr M | Some cell \<Rightarrow> Inl OutOfFuel)"
| "removeCell (Suc n) obj options M =
     (case removal_target M obj of
        None \<Rightarrow> Inr M
      | Some cell \<Rightarrow>
          collection_remove (on_removed (\<lambda>c. removeCell n (ByCell c)) (Suc n)) cell options M)"

definition cell_remove :: "nat \<Rightarrow> cell \<Rightarrow> remove_options \<Rightarrow> model \<Rightarrow> error + model" where
  "cell_remove n c = removeCell n (ByCell c)"

text \<open>\<^verbatim>\<open>removeCells(cells, options)\<close>: the removals inside a \<^verbatim>\<open>remove\<close> batch.\<close>

definition executeBatch ::
  "string \<Rightarrow> (model \<Rightarrow> error + model) \<Rightarrow> model \<Rightarrow> error + model" where
  "executeBatch name execute M =
     andThen (execute (startBatch name M)) (\<lambda>M'. Inr (stopBatch name M'))"


subsection \<open>Clearing\<close>

text \<open>
  \<^verbatim>\<open>Array.prototype.sort(comparefn)\<close> belongs to the JavaScript engine. It is an
  insertion sort here: every element goes before the first element of the sorted prefix
  that it compares less than (\<^verbatim>\<open>comparefn(x, y) < 0\<close>), so that equal elements keep
  their order. For a comparison that is not a consistent order ECMAScript leaves the
  result to the engine; this one agrees with V8, whose sort keeps an array in place when
  no call of \<^verbatim>\<open>comparefn(a[i + 1], a[i])\<close> is negative.
\<close>

fun js_insert :: "('a \<Rightarrow> 'a \<Rightarrow> int) \<Rightarrow> 'a \<Rightarrow> 'a list \<Rightarrow> 'a list" where
  "js_insert comparefn x [] = [x]"
| "js_insert comparefn x (y # ys) =
     (if comparefn x y < 0 then x # y # ys else y # js_insert comparefn x ys)"

definition js_sort :: "('a \<Rightarrow> 'a \<Rightarrow> int) \<Rightarrow> 'a list \<Rightarrow> 'a list" where
  "js_sort comparefn xs = foldl (\<lambda>sorted x. js_insert comparefn x sorted) [] xs"

text \<open>
  The comparison that \<^verbatim>\<open>clear\<close> passes: \<^verbatim>\<open>(cell) => (cell.isEdge() ? 1 : 2)\<close>. It
  reads its first argument only.
\<close>

definition clear_order :: "cell \<Rightarrow> cell \<Rightarrow> int" where
  "clear_order a b = (if isEdge a then 1 else 2)"

definition clear :: "nat \<Rightarrow> remove_options \<Rightarrow> model \<Rightarrow> error + model" where
  "clear n options M =
     (let raw = getCells M in
      if raw = [] then Inr M
      else
        (let localOptions = options\<lparr>opt_clear := True\<rparr> in
         executeBatch ''clear''
           (\<lambda>M. forEach (js_sort clear_order raw) (\<lambda>cell. cell_remove n cell localOptions) M)
           M))"

subsection \<open>The membership caches and the reachable states\<close>

text \<open>The keys of the caches \<^verbatim>\<open>nodes\<close> and \<^verbatim>\<open>edges\<close>.\<close>

definition node_ids :: "model \<Rightarrow> string set" where
  "node_ids M = set (object_keys (nodes M))"

definition edge_ids :: "model \<Rightarrow> string set" where
  "edge_ids M = set (object_keys (edges M))"

text \<open>
  The invariant that the operations keep: the ids of the collection are distinct, and the
  cache \<^verbatim>\<open>edges\<close> holds the ids of its edges, the cache \<^verbatim>\<open>nodes\<close> the ids of its
  other cells, but for the id \<^verbatim>\<open>__proto__\<close>, under which no flag can be stored.
\<close>

definition classified :: "model \<Rightarrow> bool" where
  "classified M \<longleftrightarrow>
     distinct (map cid (collection M))
     \<and> node_ids M = cid ` {c \<in> set (collection M). \<not> isEdge c} - {''__proto__''}
     \<and> edge_ids M = cid ` {c \<in> set (collection M). isEdge c} - {''__proto__''}"


subsection \<open>Example models\<close>

text \<open>The options of a call that passes none.\<close>

definition no_add_options :: add_options where
  "no_add_options = \<lparr>dry = False\<rparr>"

definition no_remove_options :: remove_options where
  "no_remove_options = \<lparr>opt_clear = False, opt_disconnectEdges = False\<rparr>"

definition indirect_options :: connected_options where
  "indirect_options =
     \<lparr>incoming = None, outgoing = None, indirect = True, deep = False, enclosed = False\<rparr>"

text \<open>The model that \<^verbatim>\<open>new Model()\<close> and one \<^verbatim>\<open>addCell\<close> per cell build.\<close>

definition model_of :: "cell list \<Rightarrow> model" where
  "model_of cells = fold (\<lambda>c. addCell c no_add_options) cells new_model"

text \<open>Two edges, each with the other as its target.\<close>

definition ring_model :: model where
  "ring_model = model_of
     [Cell ''E1'' (Edge (Point 0 0) (CellRef ''E2'')) None NoModel [],
      Cell ''E2'' (Edge (Point 5 5) (CellRef ''E1'')) None NoModel []]"

text \<open>A node with two edges that both end on a third edge.\<close>

definition fan_model :: model where
  "fan_model = model_of
     [Cell ''N'' Node None NoModel [],
      Cell ''E1'' (Edge (CellRef ''N'') (CellRef ''E3'')) None NoModel [],
      Cell ''E2'' (Edge (CellRef ''N'') (CellRef ''E3'')) None NoModel [],
      Cell ''E3'' (Edge (Point 0 0) (Point 10 10)) None NoModel []]"

text \<open>Nodes A and B and the edge E from A to B.\<close>

definition ab_model :: model where
  "ab_model = model_of
     [Cell ''A'' Node None NoModel [],
      Cell ''B'' Node None NoModel [],
      Cell ''E'' (Edge (CellRef ''A'') (CellRef ''B'')) None NoModel []]"

text \<open>The cells that the model holds under the given ids.\<close>

definition cells_by_id :: "model \<Rightarrow> string list \<Rightarrow> cell list" where
  "cells_by_id M is = List.map_filter (getCell M) is"

text \<open>Nodes A and B, the edge E from A to B, and a node C apart.\<close>

definition abc_model :: model where
  "abc_model = model_of
     [Cell ''A'' Node None NoModel [],
      Cell ''B'' Node None NoModel [],
      Cell ''E'' (Edge (CellRef ''A'') (CellRef ''B'')) None NoModel [],
      Cell ''C'' Node None NoModel []]"

text \<open>An edge E1 that ends on the edge E2, which joins the nodes X and Y.\<close>

definition chain_model :: model where
  "chain_model = model_of
     [Cell ''X'' Node None NoModel [],
      Cell ''Y'' Node None NoModel [],
      Cell ''E2'' (Edge (CellRef ''X'') (CellRef ''Y'')) None NoModel [],
      Cell ''E1'' (Edge (Point 0 0) (CellRef ''E2'')) None NoModel []]"



text \<open>
  Nodes A and E that no edge touches, and an edge between two other nodes, of which the
  first has the id \<^verbatim>\<open>constructor\<close>.
\<close>

definition member_model :: model where
  "member_model = model_of
     [Cell ''A'' Node None NoModel [],
      Cell ''E'' Node None NoModel [],
      Cell ''constructor'' Node None NoModel [],
      Cell ''B'' Node None NoModel [],
      Cell ''X'' (Edge (CellRef ''constructor'') (CellRef ''B'')) None NoModel []]"



text \<open>The \<^verbatim>\<open>node:removed\<close> and \<^verbatim>\<open>edge:removed\<close> events of a log, in their order.\<close>

definition removals :: "event list \<Rightarrow> event list" where
  "removals evs =
     filter (\<lambda>e. case e of NodeRemoved i \<Rightarrow> True | EdgeRemoved i \<Rightarrow> True | _ \<Rightarrow> False) evs"

section \<open>Objects\<close>

lemma inherited_proto [simp]: "inherited ''__proto__''"
  by (simp add: inherited_def object_prototype_keys_def)

lemma object_get_proto [simp]: "object_get obj ''__proto__'' = Inherited"
  by (simp add: object_get_def)

lemma object_get_set:
  "object_get (object_set k v obj) k' =
     (if k' = k \<and> k \<noteq> ''__proto__'' then Own v else object_get obj k')"
  by (simp add: object_get_def object_set_def update_conv')

lemma object_get_update:
  "object_get (AList.update k v obj) k' =
     (if k' = k \<and> k \<noteq> ''__proto__'' then Own v else object_get obj k')"
  by (simp add: object_get_def update_conv')

lemma object_get_Undefined:
  "object_get obj k = Undefined \<longleftrightarrow> map_of obj k = None \<and> \<not> inherited k"
  by (auto simp: object_get_def split: option.splits)

lemma object_get_Own:
  "\<not> inherited k \<Longrightarrow> object_get obj k = (case map_of obj k of None \<Rightarrow> Undefined | Some v \<Rightarrow> Own v)"
  by (auto simp: object_get_def split: option.splits)


section \<open>Batch counters\<close>

text \<open>
  C10, as amended. The counters are not floored at zero. For a batch name that is not
  the name of a member of \<^verbatim>\<open>Object.prototype\<close> and whose counter is zero (none is
  stored, or 0 is), \<^verbatim>\<open>stopBatch\<close> still publishes \<^verbatim>\<open>batch:stop\<close> and leaves the
  counter at -1; a \<^verbatim>\<open>startBatch\<close> after it brings the counter back to 0, and
  \<^verbatim>\<open>hasActiveBatch(name)\<close> is then false although a batch has just been started.
\<close>

theorem stopBatch_not_floored:
  assumes "\<not> inherited name" "idle M name"
  shows "events (stopBatch name M) = events M @ [BatchStop name]
       \<and> object_get (batches (stopBatch name M)) name = Own (Number (- 1))
       \<and> object_get (batches (startBatch name (stopBatch name M))) name = Own (Number 0)
       \<and> \<not> hasActiveBatch (OneBatch name) (startBatch name (stopBatch name M))"
proof -
  have p: "name \<noteq> ''__proto__''"
    using assms(1) by auto
  have c: "batch_count M name = Own (Number 0)"
    using assms
    by (auto simp: batch_count_def idle_def or_zero_def object_get_Own split: option.splits)
  have s: "batches (stopBatch name M) = object_set name (Number (- 1)) (batches M)"
    by (simp add: stopBatch_def notify_def c minus_one_def)
  have c': "batch_count (stopBatch name M) name = Own (Number (- 1))"
    by (simp add: batch_count_def s object_get_set p or_zero_def)
  have s': "batches (startBatch name (stopBatch name M))
      = object_set name (Number 0) (batches (stopBatch name M))"
    by (simp add: startBatch_def notify_def c' plus_one_def)
  have e: "events (stopBatch name M) = events M @ [BatchStop name]"
    by (simp add: stopBatch_def notify_def)
  show ?thesis
    by (simp add: e s' s object_get_set p hasActiveBatch_def greater_zero_def)
qed

text \<open>
  The claim as stated fails for the name \<^verbatim>\<open>constructor\<close>: no counter is stored under
  it in a new model, \<^verbatim>\<open>this.batches[name] || 0\<close> is the function that the prototype
  answers with, \<^verbatim>\<open>stopBatch\<close> stores \<^verbatim>\<open>NaN\<close>, \<^verbatim>\<open>startBatch\<close> then stores 1, and
  \<^verbatim>\<open>hasActiveBatch\<close> is true.
\<close>

theorem stopBatch_member_name:
  "idle new_model ''constructor''
   \<and> object_get (batches (stopBatch ''constructor'' new_model)) ''constructor'' = Own NaN
   \<and> object_get (batches (startBatch ''constructor'' (stopBatch ''constructor'' new_model)))
        ''constructor'' = Own (Number 1)
   \<and> hasActiveBatch (OneBatch ''constructor'')
        (startBatch ''constructor'' (stopBatch ''constructor'' new_model))"
  by code_simp

theorem stopBatch_not_floored_witness:
  "\<not> inherited ''add'' \<and> idle new_model ''add''
   \<and> events (stopBatch ''add'' new_model) = [BatchStop ''add'']
   \<and> object_get (batches (stopBatch ''add'' new_model)) ''add'' = Own (Number (- 1))
   \<and> object_get (batches (startBatch ''add'' (stopBatch ''add'' new_model))) ''add''
        = Own (Number 0)
   \<and> \<not> hasActiveBatch (OneBatch ''add'') (startBatch ''add'' (stopBatch ''add'' new_model))"
proof -
  have h: "\<not> inherited ''add''"
    by (simp add: inherited_def object_prototype_keys_def)
  have i: "idle new_model ''add''"
    by (simp add: idle_def new_model_def constructor_def)
  have e: "events new_model = []"
    by (simp add: new_model_def constructor_def)
  show ?thesis
    using h i e stopBatch_not_floored [OF h i] by simp
qed

section \<open>Loops\<close>

lemma fold_preserves:
  assumes "\<And>x N. x \<in> set xs \<Longrightarrow> P N \<Longrightarrow> P (f x N)" "P M"
  shows "P (fold f xs M)"
  using assms by (induction xs arbitrary: M) auto

lemma forEach_preserves:
  assumes "\<And>x s s'. x \<in> set xs \<Longrightarrow> P s \<Longrightarrow> f x s = Inr s' \<Longrightarrow> P s'"
    and "P s" and "forEach xs f s = Inr s'"
  shows "P s'"
  using assms
proof (induction xs arbitrary: s)
  case Nil
  then show ?case by simp
next
  case (Cons x xs)
  from Cons.prems(3) obtain s1 where s1: "f x s = Inr s1" "forEach xs f s1 = Inr s'"
    by (auto split: sum.splits)
  have p1: "P s1"
    using Cons.prems(1) [of x s s1] Cons.prems(2) s1 by simp
  show ?case
  proof (rule Cons.IH [OF _ p1 s1(2)])
    fix y t t'
    assume "y \<in> set xs" "P t" "f y t = Inr t'"
    then show "P t'"
      using Cons.prems(1) [of y t t'] by simp
  qed
qed

lemma forEach_total:
  assumes "\<And>x s. x \<in> set xs \<Longrightarrow> \<exists>s'. f x s = Inr s'"
  shows "\<exists>s'. forEach xs f s = Inr s'"
  using assms
proof (induction xs arbitrary: s)
  case Nil
  show ?case by simp
next
  case (Cons x xs)
  obtain s1 where "f x s = Inr s1"
    using Cons.prems [of x s] by auto
  moreover obtain s2 where "forEach xs f s1 = Inr s2"
    using Cons.IH [of s1] Cons.prems by auto
  ultimately show ?case by simp
qed

lemma forEach_returns:
  assumes "\<And>x s. x \<in> set xs \<Longrightarrow> P s \<Longrightarrow> \<exists>s'. f x s = Inr s' \<and> P s'" and "P s"
  shows "\<exists>s'. forEach xs f s = Inr s' \<and> P s'"
  using assms
proof (induction xs arbitrary: s)
  case Nil
  then show ?case by simp
next
  case (Cons x xs)
  obtain s1 where s1: "f x s = Inr s1" "P s1"
    using Cons.prems(1) [of x s] Cons.prems(2) by auto
  obtain s2 where "forEach xs f s1 = Inr s2" "P s2"
    using Cons.IH [of s1] Cons.prems(1) s1(2) by auto
  then show ?case using s1(1) by simp
qed

section \<open>The collection and the caches\<close>

lemma collection_has_iff: "collection_has cs i \<longleftrightarrow> i \<in> cid ` set cs"
  by (auto simp: collection_has_def collection_get_def find_None_iff)

lemma has_iff: "has M obj \<longleftrightarrow> arg_id obj \<in> cid ` set (collection M)"
  by (simp add: has_def collection_has_iff)

lemma cid_prepareCell [simp]: "cid (prepareCell M c options) = cid c"
  by (simp add: prepareCell_def)

lemma collection_notify [simp]: "collection (notify ev M) = collection M"
  by (simp add: notify_def)

lemma collection_onCellAdded [simp]: "collection (onCellAdded c M) = collection M"
  by (simp add: onCellAdded_def)

lemma collection_on_added [simp]: "collection (on_added c M) = collection M"
  by (simp add: on_added_def Let_def)

lemma ids_collection_add_cell:
  "cid ` set (collection (collection_add_cell c M)) = insert (cid c) (cid ` set (collection M))"
  by (auto simp: collection_add_cell_def collection_add_def collection_has_iff
      split: option.splits if_splits)




section \<open>Connected edges\<close>

lemma cached_set: "cached (object_set k True cache) k' \<longleftrightarrow> k' = k \<or> cached cache k'"
  by (cases "k = ''__proto__''")
    (auto simp: cached_def object_get_update holds_def object_set_def)

lemma collect_direct:
  "collect (Suc n) M False inc out cell isOutgoing st =
     forEach (if isOutgoing then cell_getOutgoingEdges M cell else cell_getIncomingEdges M cell)
       collect_step st"
proof -
  have f: "(\<lambda>edge (result, cache).
             if cached cache (cid edge) then Inr (result, cache)
             else if False then
               andThen (if inc then collect n M False inc out edge False
                                      (result @ [edge], object_set (cid edge) True cache)
                        else Inr (result @ [edge], object_set (cid edge) True cache))
                 (\<lambda>st'. if out then collect n M False inc out edge True st' else Inr st')
             else Inr (result @ [edge], object_set (cid edge) True cache)) = collect_step"
    by (intro ext) (simp add: collect_step_def split: prod.splits)
  show ?thesis
    by (simp add: f andThen_def getOutgoingEdges_def getIncomingEdges_def split: sum.splits prod.splits)
qed

lemma collect_direct_total:
  "\<exists>st'. collect (Suc n) M False inc out cell isOutgoing st = Inr st'"
  unfolding collect_direct by (rule forEach_total) (simp add: collect_step_def)

text \<open>Without \<^verbatim>\<open>indirect\<close> and \<^verbatim>\<open>deep\<close> the call returns, for every bound of at least 1.\<close>

lemma getConnectedEdges_direct_total:
  assumes "\<not> indirect options" "\<not> deep options"
  shows "\<exists>es. getConnectedEdges (Suc n) M obj options = Inr es"
proof (cases "case obj of ById i \<Rightarrow> getCell M i | ByCell c \<Rightarrow> Some c")
  case None
  then show ?thesis by (simp add: getConnectedEdges_def)
next
  case (Some node)
  have c: "\<exists>st'. (if b then collect (Suc n) M False inc out node io st else Inr st) = Inr st'"
    for b inc out io st
    using collect_direct_total [of n M inc out node io st] by simp
  obtain inc out where
    g: "getConnectedEdges (Suc n) M obj options =
      andThen (if out then collect (Suc n) M False inc out node True ([], []) else Inr ([], []))
        (\<lambda>st1. andThen (if inc then collect (Suc n) M False inc out node False st1 else Inr st1)
           (\<lambda>st2. Inr (fst st2)))"
    using Some assms by (simp add: getConnectedEdges_def Let_def andThen_def del: collect.simps)
  obtain st1 where "(if out then collect (Suc n) M False inc out node True ([], []) else Inr ([], [])) = Inr st1"
    using c by blast
  moreover obtain st2 where "(if inc then collect (Suc n) M False inc out node False st1 else Inr st1) = Inr st2"
    using c by blast
  ultimately show ?thesis
    by (simp add: g andThen_def del: collect.simps)
qed

lemma collected_push:
  assumes "collected (result, cache)" "\<not> cached cache (cid edge)"
  shows "collected (result @ [edge], object_set (cid edge) True cache)"
  using assms by (auto simp: collected_def cached_set)

lemma collected_step:
  "collected st \<Longrightarrow> collect_step edge st = Inr st' \<Longrightarrow> collected st'"
  using collected_push [of "fst st" "snd st" edge]
  by (auto simp: collect_step_def split: if_splits)

lemma collected_collect:
  assumes "collected st" "collect n M False inc out cell isOutgoing st = Inr st'"
  shows "collected st'"
proof (cases n)
  case 0
  then show ?thesis using assms(2) by simp
next
  case (Suc k)
  then have fe: "forEach (if isOutgoing then cell_getOutgoingEdges M cell
      else cell_getIncomingEdges M cell) collect_step st = Inr st'"
    using assms(2) by (simp only: collect_direct)
  show ?thesis
    by (rule forEach_preserves [where P = collected, OF _ assms(1) fe]) (rule collected_step)
qed

lemma collected_collectSub:
  assumes "collected st" "collectSub M encl embedsCache cell isOutgoing st = Inr st'"
  shows "collected st'"
proof -
  let ?f = "\<lambda>edge (result, cache).
             if \<not> cached cache (cid edge) then
               (if \<not> encl
                   \<and> (case getSourceCell M edge of None \<Rightarrow> False
                       | Some s \<Rightarrow> cached embedsCache (cid s))
                   \<and> (case getTargetCell M edge of None \<Rightarrow> False
                       | Some t \<Rightarrow> cached embedsCache (cid t))
                then Inr (result, cache)
                else Inr (result @ [edge], object_set (cid edge) True cache))
             else (Inr (result, cache) :: error + cell list \<times> bool KeyValue)"
  from assms(2) obtain es where fe: "forEach es ?f st = Inr st'"
    by (auto simp: collectSub_def andThen_def split: sum.splits)
  show ?thesis
    by (rule forEach_preserves [where P = collected, OF _ assms(1) fe])
      (auto split: if_splits intro: collected_push)
qed

text \<open>
  Without \<^verbatim>\<open>indirect\<close> every edge that is pushed is cached, and the result holds no id
  twice, with or without \<^verbatim>\<open>deep\<close> and \<^verbatim>\<open>enclosed\<close>.
\<close>

lemma getConnectedEdges_direct_distinct:
  assumes "\<not> indirect options" "getConnectedEdges n M obj options = Inr es"
  shows "distinct (map cid es)"
proof (cases "case obj of ById i \<Rightarrow> getCell M i | ByCell c \<Rightarrow> Some c")
  case None
  then show ?thesis using assms(2) by (simp add: getConnectedEdges_def)
next
  case (Some node)
  define inc where "inc = (incoming options = None \<and> outgoing options = None \<or> incoming options = Some True)"
  define out where "out = (incoming options = None \<and> outgoing options = None \<or> outgoing options = Some True)"
  define embeds where "embeds = fold (\<lambda>c embeds. if isNode c then object_set (cid c) True embeds
      else embeds) (getDescendants M node) []"
  define dstep where "dstep = (\<lambda>c st.
      if isEdge c then Inr st
      else andThen (if out then collectSub M (enclosed options) embeds c True st else Inr st)
             (\<lambda>st'. if inc then collectSub M (enclosed options) embeds c False st' else Inr st'))"
  have i: "indirect options = False"
    using assms(1) by simp
  have g: "getConnectedEdges n M obj options =
      andThen (if out then collect n M False inc out node True ([], []) else Inr ([], []))
        (\<lambda>st1. andThen (if inc then collect n M False inc out node False st1 else Inr st1)
        (\<lambda>st2. andThen (if deep options then forEach (getDescendants M node) dstep st2 else Inr st2)
        (\<lambda>st3. Inr (fst st3))))"
    unfolding getConnectedEdges_def Let_def inc_def out_def dstep_def embeds_def Some i
    by (simp only: option.case)
  from assms(2) [unfolded g] obtain st1 st2 st3 where
    a: "(if out then collect n M False inc out node True ([], []) else Inr ([], [])) = Inr st1"
    and b: "(if inc then collect n M False inc out node False st1 else Inr st1) = Inr st2"
    and c: "(if deep options then forEach (getDescendants M node) dstep st2 else Inr st2) = Inr st3"
    and e: "es = fst st3"
    by (auto simp: andThen_def simp del: collect.simps split: sum.splits)
  have "collected ([], [])"
    by (simp add: collected_def)
  then have "collected st1"
    using a collected_collect by (auto split: if_splits)
  then have s2: "collected st2"
    using b collected_collect by (auto split: if_splits)
  have d: "collected st \<Longrightarrow> dstep c st = Inr st' \<Longrightarrow> collected st'" for c st st'
    unfolding dstep_def
    by (auto simp: andThen_def split: if_splits sum.splits dest: collected_collectSub)
  have "collected st3"
  proof (cases "deep options")
    case True
    then have fe: "forEach (getDescendants M node) dstep st2 = Inr st3"
      using c by simp
    show ?thesis
      by (rule forEach_preserves [where P = collected, OF _ s2 fe]) (rule d)
  next
    case False
    then show ?thesis using c s2 by simp
  qed
  then show ?thesis
    by (simp add: e collected_def)
qed

lemma ring_collection:
  "collection ring_model =
     [Cell ''E1'' (Edge (Point 0 0) (CellRef ''E2'')) (Some 1) ThisModel [],
      Cell ''E2'' (Edge (Point 5 5) (CellRef ''E1'')) (Some 2) ThisModel []]"
  by code_simp

lemma ring_uncached: "\<not> cached [] ''E1''" "\<not> cached [] ''E2''"
  by (simp_all add: cached_def object_get_def holds_def inherited_def object_prototype_keys_def)

text \<open>
  On the ring, \<^verbatim>\<open>collect(E1, true)\<close> finds no outgoing edge, pushes the target E2
  without caching it and calls \<^verbatim>\<open>collect(E2, true)\<close>, which does the same with E1:
  the cache stays empty, and no bound on the depth is enough.
\<close>

lemma ring_collect:
  "collect n ring_model True True True
      (Cell ''E1'' (Edge (Point 0 0) (CellRef ''E2'')) (Some 1) ThisModel []) True (r, [])
     = Inl OutOfFuel
   \<and> collect n ring_model True True True
      (Cell ''E2'' (Edge (Point 5 5) (CellRef ''E1'')) (Some 2) ThisModel []) True (r, [])
     = Inl OutOfFuel"
proof (induction n arbitrary: r)
  case 0
  show ?case by simp
next
  case (Suc n)
  show ?case
    by (simp add: Suc getOutgoingEdges_def cell_getOutgoingEdges_def ring_collection
        andThen_def getSourceCellId_def getTargetCellId_def getTargetCell_def
        getTerminalCell_def getCell_def collection_get_def isEdge_def ring_uncached)
qed

text \<open>
  C4, at the failing input: on the model of two edges that are each other's target,
  \<^verbatim>\<open>getConnectedEdges(E1, { indirect: true })\<close> does not return, whatever the bound on
  the depth of the recursion.
\<close>

theorem getConnectedEdges_ring_diverges:
  "getConnectedEdges n ring_model (ById ''E1'') indirect_options = Inl OutOfFuel"
  using ring_collect [of n "[]"]
  by (simp add: getConnectedEdges_def getCell_def collection_get_def ring_collection
      indirect_options_def andThen_def)

text \<open>
  C3, at the failing input: on the model of a node N with the edges E1 and E2 that both
  end on the edge E3, \<^verbatim>\<open>getConnectedEdges(N, { indirect: true })\<close> returns E3 twice.
\<close>

theorem getConnectedEdges_fan_duplicate:
  "map_sum id (map cid) (getConnectedEdges 3 fan_model (ById ''N'') indirect_options)
     = Inr [''E1'', ''E3'', ''E2'', ''E3'']"
  by code_simp

section \<open>Subgraphs\<close>

lemma known_update: "known (AList.update k v cache) k' \<longleftrightarrow> k' = k \<or> known cache k'"
  by (auto simp: known_def object_get_update present_def)

lemma known_empty: "known [] k \<longleftrightarrow> inherited k"
  by (auto simp: known_def object_get_def present_def)

lemma getTerminalCell_plain:
  assumes "plain_model M" "getTerminalCell M i = Some c"
  shows "plain c"
proof -
  have "c \<in> set (collection M) \<or> c \<in> set (removing M)"
    using assms(2)
    by (auto simp: getTerminalCell_def getCell_def collection_get_def find_Some_iff
        split: option.splits)
  then show ?thesis
    using assms(1) by (auto simp: plain_model_def list_all_iff)
qed

lemma terminal_plain:
  assumes "plain_model M"
  shows "getSourceCell M e = Some c \<Longrightarrow> \<not> inherited (cid c)"
    and "getTargetCell M e = Some c \<Longrightarrow> \<not> inherited (cid c)"
  using getTerminalCell_plain [OF assms]
  by (auto simp: getSourceCell_def getTargetCell_def plain_def split: option.splits)

lemma sg_expand_input:
  "sg_expand M dp cells st = fold sg_collect (sg_input M dp cells) st"
proof -
  have "fold (\<lambda>cell st. let st1 = sg_collect cell st
                      in if dp then fold sg_collect (getDescendants M cell) st1 else st1) cells st
    = fold sg_collect (sg_input M dp cells) st"
    by (induction cells arbitrary: st) (simp_all add: sg_input_def Let_def)
  then show ?thesis by (simp add: sg_expand_def)
qed

lemma sg_collect_facts:
  assumes "sg_cached st" "set (sg_edges st) = {c \<in> set (subgraph st). isEdge c}"
  shows "sg_cached (sg_collect c st)"
    and "set (sg_edges (sg_collect c st)) = {x \<in> set (subgraph (sg_collect c st)). isEdge x}"
    and "set (subgraph (sg_collect c st)) \<subseteq> insert c (set (subgraph st))"
    and "known (sg_cache (sg_collect c st)) k \<longleftrightarrow> k = cid c \<or> known (sg_cache st) k"
  using assms by (auto simp: sg_cached_def sg_collect_def known_update)

lemma sg_collect_all:
  assumes "sg_cached st" "set (sg_edges st) = {c \<in> set (subgraph st). isEdge c}"
  shows "sg_cached (fold sg_collect xs st)
    \<and> set (sg_edges (fold sg_collect xs st)) = {x \<in> set (subgraph (fold sg_collect xs st)). isEdge x}
    \<and> set (subgraph (fold sg_collect xs st)) \<subseteq> set xs \<union> set (subgraph st)
    \<and> (\<forall>k. known (sg_cache (fold sg_collect xs st)) k
            \<longleftrightarrow> k \<in> cid ` set xs \<or> known (sg_cache st) k)"
  using assms
proof (induction xs arbitrary: st)
  case Nil
  then show ?case by simp
next
  case (Cons x xs)
  note f = sg_collect_facts [OF Cons.prems, of x]
  from Cons.IH [OF f(1,2)] f(3,4) show ?case by auto
qed

lemma sg_first_pass:
  fixes xs
  defines "st1 \<equiv> fold sg_collect xs \<lparr>subgraph = [], sg_cache = [], sg_nodes = [], sg_edges = []\<rparr>"
  shows "sg_cached st1"
    and "set (sg_edges st1) = {x \<in> set (subgraph st1). isEdge x}"
    and "set (subgraph st1) \<subseteq> set xs"
    and "inj_on cid (set xs) \<Longrightarrow> list_all plain xs \<Longrightarrow> set xs \<subseteq> set (subgraph st1)"
proof -
  have c0: "sg_cached \<lparr>subgraph = [], sg_cache = [], sg_nodes = [], sg_edges = []\<rparr>"
    by (simp add: sg_cached_def known_empty)
  have e0: "set (sg_edges \<lparr>subgraph = [], sg_cache = [], sg_nodes = [], sg_edges = []\<rparr>)
      = {c \<in> set (subgraph \<lparr>subgraph = [], sg_cache = [], sg_nodes = [], sg_edges = []\<rparr>). isEdge c}"
    by simp
  note a = sg_collect_all [OF c0 e0, of xs, folded st1_def]
  show c: "sg_cached st1" and "set (sg_edges st1) = {x \<in> set (subgraph st1). isEdge x}"
    and s: "set (subgraph st1) \<subseteq> set xs"
    using a by auto
  show "set xs \<subseteq> set (subgraph st1)" if i: "inj_on cid (set xs)" and p: "list_all plain xs"
  proof
    fix x assume x: "x \<in> set xs"
    then have "known (sg_cache st1) (cid x)"
      using a by auto
    moreover have "\<not> inherited (cid x)"
      using p x by (auto simp: list_all_iff plain_def)
    ultimately have "cid x \<in> cid ` set (subgraph st1)"
      using c by (auto simp: sg_cached_def)
    then obtain y where y: "y \<in> set (subgraph st1)" "cid y = cid x" by auto
    then have "y = x" using s x i by (auto dest: inj_onD)
    with y show "x \<in> set (subgraph st1)" by simp
  qed
qed

lemma sg_terminal_facts:
  assumes "sg_cached st"
  shows "sg_cached (sg_terminal t st)"
    and "set (subgraph st) \<subseteq> set (subgraph (sg_terminal t st))"
    and "set (subgraph (sg_terminal t st)) \<subseteq> set (subgraph st) \<union> set_option t"
    and "\<forall>c\<in>set_option t. cid c \<in> cid ` set (subgraph (sg_terminal t st)) \<or> inherited (cid c)"
  using assms by (auto simp: sg_cached_def sg_terminal_def known_update split: option.splits)

lemma sg_terminals_facts:
  assumes "sg_cached st"
  shows "sg_cached (sg_terminals M es st)
    \<and> set (subgraph st) \<subseteq> set (subgraph (sg_terminals M es st))
    \<and> set (subgraph (sg_terminals M es st)) \<subseteq> set (subgraph st) \<union> (\<Union>e\<in>set es. terminals_of M e)
    \<and> (\<forall>e\<in>set es. \<forall>c\<in>terminals_of M e.
          cid c \<in> cid ` set (subgraph (sg_terminals M es st)) \<or> inherited (cid c))"
  using assms
proof (induction es arbitrary: st)
  case Nil
  then show ?case by (simp add: sg_terminals_def)
next
  case (Cons e es)
  define s1 where "s1 = sg_terminal (getSourceCell M e) st"
  define s2 where "s2 = sg_terminal (getTargetCell M e) s1"
  note a = sg_terminal_facts [OF Cons.prems, of "getSourceCell M e", folded s1_def]
  note b = sg_terminal_facts [OF a(1), of "getTargetCell M e", folded s2_def]
  have r: "sg_terminals M (e # es) st = sg_terminals M es s2"
    by (simp add: sg_terminals_def s1_def s2_def)
  from Cons.IH [OF b(1)] have ih:
    "sg_cached (sg_terminals M es s2)"
    "set (subgraph s2) \<subseteq> set (subgraph (sg_terminals M es s2))"
    "set (subgraph (sg_terminals M es s2)) \<subseteq> set (subgraph s2) \<union> (\<Union>e\<in>set es. terminals_of M e)"
    "\<forall>e\<in>set es. \<forall>c\<in>terminals_of M e.
       cid c \<in> cid ` set (subgraph (sg_terminals M es s2)) \<or> inherited (cid c)"
    by auto
  have "\<forall>c\<in>set_option (getSourceCell M e). cid c \<in> cid ` set (subgraph s2) \<or> inherited (cid c)"
    using a(4) b(2) by blast
  then have "\<forall>c\<in>terminals_of M e. cid c \<in> cid ` set (subgraph s2) \<or> inherited (cid c)"
    using b(4) by (auto simp: terminals_of_def)
  then have c: "\<forall>c\<in>terminals_of M e.
      cid c \<in> cid ` set (subgraph (sg_terminals M es s2)) \<or> inherited (cid c)"
    using ih(2) by blast
  have d: "set (subgraph s2) \<subseteq> set (subgraph st) \<union> terminals_of M e"
    using a(3) b(3) by (auto simp: terminals_of_def)
  have e: "set (subgraph st) \<subseteq> set (subgraph s2)"
    using a(2) b(2) by auto
  show ?case
    unfolding r using ih c d e by auto
qed

lemma sg_closed_mono: "sg_closed M R c \<Longrightarrow> set R \<subseteq> set R' \<Longrightarrow> sg_closed M R' c"
  unfolding sg_closed_def by blast

lemma sg_third_connect:
  assumes "plain_model M" "sg_third M st2 st"
  shows "sg_third M st2 (sg_connect M edge st)"
proof (cases "sg_connect M edge st = st")
  case True
  then show ?thesis using assms by simp
next
  case False
  then have n: "sg_connect M edge st
      = st\<lparr>subgraph := subgraph st @ [edge],
           sg_cache := AList.update (cid edge) edge (sg_cache st)\<rparr>"
    and k: "\<exists>s t. getSourceCell M edge = Some s \<and> getTargetCell M edge = Some t
              \<and> known (sg_cache st) (cid s) \<and> known (sg_cache st) (cid t)"
    by (auto simp: sg_connect_def split: if_splits option.splits)
  have e: "sg_closed M (subgraph st) edge"
    using k assms(2) terminal_plain [OF assms(1)]
    unfolding sg_closed_def sg_third_def sg_cached_def by blast
  have "sg_closed M (subgraph st @ [edge]) c"
    if "c \<in> set (subgraph st) \<and> c \<notin> set (subgraph st2) \<or> c = edge" for c
    using that assms(2) e by (auto simp: sg_third_def intro: sg_closed_mono)
  then show ?thesis
    using assms(2) unfolding n sg_third_def sg_cached_def by (auto simp: known_update)
qed

lemma sg_third_pass:
  assumes "plain_model M" "sg_cached st2"
    and "forEach ns
           (\<lambda>node st. andThen (getConnectedEdges n M (ByCell node) options)
                         (\<lambda>es. Inr (fold (sg_connect M) es st))) st2 = Inr st3"
  shows "sg_third M st2 st3"
proof (rule forEach_preserves [where P = "sg_third M st2", OF _ _ assms(3)])
  show "sg_third M st2 st2"
    using assms(2) by (simp add: sg_third_def)
next
  fix node st st'
  assume p: "sg_third M st2 st"
    and r: "andThen (getConnectedEdges n M (ByCell node) options)
              (\<lambda>es. Inr (fold (sg_connect M) es st)) = Inr st'"
  from r obtain es where "st' = fold (sg_connect M) es st"
    by (auto simp: andThen_def split: sum.splits)
  moreover have "sg_third M st2 (fold (sg_connect M) es st)"
    by (rule fold_preserves [where P = "sg_third M st2"])
      (simp_all add: p sg_third_connect [OF assms(1)])
  ultimately show "sg_third M st2 st'" by simp
qed

lemma sg_third_subset:
  assumes "forEach ns
           (\<lambda>node st. andThen (getConnectedEdges n M (ByCell node) options)
                         (\<lambda>es. Inr (fold (sg_connect M) es st))) st2 = Inr st3"
  shows "set (subgraph st2) \<subseteq> set (subgraph st3)"
proof (rule forEach_preserves [where P = "\<lambda>st. set (subgraph st2) \<subseteq> set (subgraph st)",
      OF _ _ assms])
  show "set (subgraph st2) \<subseteq> set (subgraph st2)" by simp
next
  fix node st st'
  assume p: "set (subgraph st2) \<subseteq> set (subgraph st)"
    and r: "andThen (getConnectedEdges n M (ByCell node) options)
              (\<lambda>es. Inr (fold (sg_connect M) es st)) = Inr st'"
  from r obtain es where "st' = fold (sg_connect M) es st"
    by (auto simp: andThen_def split: sum.splits)
  moreover have "set (subgraph st2) \<subseteq> set (subgraph (fold (sg_connect M) es st))"
    by (rule fold_preserves [where P = "\<lambda>st. set (subgraph st2) \<subseteq> set (subgraph st)"])
      (auto simp: p sg_connect_def)
  ultimately show "set (subgraph st2) \<subseteq> set (subgraph st')" by simp
qed

lemma getSubGraph_returns:
  "\<exists>R. getSubGraph (Suc n) M cells False = Inr R"
proof -
  let ?f = "\<lambda>node st.
      andThen (getConnectedEdges (Suc n) M (ByCell node)
                 \<lparr>incoming = None, outgoing = None, indirect = False, deep = False,
                  enclosed = False\<rparr>)
        (\<lambda>es. Inr (fold (sg_connect M) es st))"
  have "\<exists>s'. forEach ns ?f s = Inr s'" for ns s
  proof (rule forEach_total)
    fix x s
    obtain es where "getConnectedEdges (Suc n) M (ByCell x)
        \<lparr>incoming = None, outgoing = None, indirect = False, deep = False, enclosed = False\<rparr>
        = Inr es"
      using getConnectedEdges_direct_total [of _ n M "ByCell x"] by force
    then show "\<exists>s'. ?f x s = Inr s'"
      by (simp add: andThen_def)
  qed
  then show ?thesis
    unfolding getSubGraph_def Let_def andThen_def
    by (metis (no_types, lifting) sum.case(2))
qed

lemma getSubGraph_passes:
  assumes "getSubGraph n M cells dp = Inr R"
  shows "plain_model M \<Longrightarrow>
           \<forall>c\<in>set R. c \<in> set (sg_input M dp cells)
             \<or> (\<exists>e\<in>set (sg_input M dp cells). isEdge e \<and> c \<in> terminals_of M e)
             \<or> sg_closed M R c"
    and "inj_on cid (set (sg_input M dp cells)) \<Longrightarrow> list_all plain (sg_input M dp cells)
           \<Longrightarrow> set (sg_input M dp cells) \<subseteq> set R"
    and "plain_model M \<Longrightarrow> inj_on cid (set (sg_input M dp cells))
           \<Longrightarrow> list_all plain (sg_input M dp cells)
           \<Longrightarrow> e \<in> set (sg_input M dp cells) \<Longrightarrow> isEdge e
           \<Longrightarrow> cid ` terminals_of M e \<subseteq> cid ` set R"
proof -
  define X where "X = sg_input M dp cells"
  define st1 where "st1 = fold sg_collect X \<lparr>subgraph = [], sg_cache = [], sg_nodes = [], sg_edges = []\<rparr>"
  define st2 where "st2 = sg_terminals M (sg_edges st1) st1"
  note p1 = sg_first_pass [of X, folded st1_def]
  note p2 = sg_terminals_facts [OF p1(1), of M "sg_edges st1", folded st2_def]
  from assms obtain st3 where
    fe: "forEach (sg_nodes st2)
           (\<lambda>node st. andThen (getConnectedEdges n M (ByCell node)
                \<lparr>incoming = None, outgoing = None, indirect = False, deep = dp, enclosed = False\<rparr>)
              (\<lambda>es. Inr (fold (sg_connect M) es st))) st2 = Inr st3"
    and R: "R = subgraph st3"
    by (auto simp: getSubGraph_def Let_def andThen_def sg_expand_input X_def st1_def st2_def
        split: sum.splits)
  have sub: "set (subgraph st2) \<subseteq> set R"
    unfolding R by (rule sg_third_subset [OF fe])
  have s2: "set (subgraph st2) \<subseteq> set X \<union> (\<Union>e\<in>{x \<in> set X. isEdge x}. terminals_of M e)"
    using p1(2,3) p2 by blast
  show "\<forall>c\<in>set R. c \<in> set (sg_input M dp cells)
             \<or> (\<exists>e\<in>set (sg_input M dp cells). isEdge e \<and> c \<in> terminals_of M e)
             \<or> sg_closed M R c" if "plain_model M"
  proof -
    have p3: "sg_third M st2 st3"
      using that p2 fe by (auto intro: sg_third_pass)
    show ?thesis
      using p3 s2 unfolding sg_third_def R X_def [symmetric] by blast
  qed
  show "set (sg_input M dp cells) \<subseteq> set R"
    if "inj_on cid (set (sg_input M dp cells))" "list_all plain (sg_input M dp cells)"
    using p1(4) that p2 sub unfolding X_def [symmetric] by blast
  show "cid ` terminals_of M e \<subseteq> cid ` set R"
    if m: "plain_model M" and "inj_on cid (set (sg_input M dp cells))"
      "list_all plain (sg_input M dp cells)" "e \<in> set (sg_input M dp cells)" "isEdge e"
  proof
    fix i assume "i \<in> cid ` terminals_of M e"
    then obtain c where c: "c \<in> terminals_of M e" "i = cid c" by auto
    have "e \<in> set (sg_edges st1)"
      using p1(2,4) that unfolding X_def [symmetric] by blast
    then have "cid c \<in> cid ` set (subgraph st2) \<or> inherited (cid c)"
      using p2 c(1) by blast
    moreover have "\<not> inherited (cid c)"
      using c(1) terminal_plain [OF m] by (auto simp: terminals_of_def)
    ultimately show "i \<in> cid ` set R"
      using sub c(2) by blast
  qed
qed

text \<open>
  C1, as amended. On the model of A, B, the edge E from A to B and the node C,
  \<^verbatim>\<open>getSubGraph([A])\<close> returns A alone: E is not in the input, so nothing pulls B in,
  and E is left out because its target is not in the set. Without \<^verbatim>\<open>deep\<close> the call
  returns. Whenever it returns on a model none of whose cells has the name of a member
  of \<^verbatim>\<open>Object.prototype\<close> as its id, every cell of the result is a cell of the
  expanded input, a cell that a terminal of an edge of the expanded input resolves to,
  or an edge whose two terminals resolve to cells with ids in the result; and when,
  moreover, the ids of the cells of the expanded input are no such names and identify
  these cells, every such cell is in the result, and for every edge among them the ids
  of the cells that its terminals resolve to are in the result.
\<close>

theorem getSubGraph_closure:
  "map_sum id (map cid) (getSubGraph 1 abc_model (cells_by_id abc_model [''A'']) False) = Inr [''A'']
   \<and> (\<exists>R'. getSubGraph (Suc m) M cells False = Inr R')
   \<and> (getSubGraph n M cells dp = Inr R \<and> plain_model M \<longrightarrow>
        (\<forall>c\<in>set R. c \<in> set (sg_input M dp cells)
             \<or> (\<exists>e\<in>set (sg_input M dp cells). isEdge e \<and> c \<in> terminals_of M e)
             \<or> sg_closed M R c)
        \<and> (inj_on cid (set (sg_input M dp cells)) \<and> list_all plain (sg_input M dp cells) \<longrightarrow>
             set (sg_input M dp cells) \<subseteq> set R
             \<and> (\<forall>e\<in>set (sg_input M dp cells). isEdge e \<longrightarrow>
                   cid ` terminals_of M e \<subseteq> cid ` set R)))"
proof (intro conjI impI ballI; (elim conjE)?)
  show "map_sum id (map cid) (getSubGraph 1 abc_model (cells_by_id abc_model [''A'']) False)
      = Inr [''A'']"
    by code_simp
  show "\<exists>R'. getSubGraph (Suc m) M cells False = Inr R'"
    by (rule getSubGraph_returns)
next
  fix c
  assume "getSubGraph n M cells dp = Inr R" "plain_model M" "c \<in> set R"
  then show "c \<in> set (sg_input M dp cells)
      \<or> (\<exists>e\<in>set (sg_input M dp cells). isEdge e \<and> c \<in> terminals_of M e)
      \<or> sg_closed M R c"
    using getSubGraph_passes(1) by blast
next
  assume "getSubGraph n M cells dp = Inr R" "inj_on cid (set (sg_input M dp cells))"
    "list_all plain (sg_input M dp cells)"
  then show "set (sg_input M dp cells) \<subseteq> set R"
    by (rule getSubGraph_passes(2))
next
  fix e
  assume "getSubGraph n M cells dp = Inr R" "plain_model M"
    "inj_on cid (set (sg_input M dp cells))" "list_all plain (sg_input M dp cells)"
    "e \<in> set (sg_input M dp cells)" "isEdge e"
  then show "cid ` terminals_of M e \<subseteq> cid ` set R"
    by (rule getSubGraph_passes(3))
qed

text \<open>
  The claim as stated fails on that model: B is not in the result. Its general part
  fails on the model with the edge X from the node of the id \<^verbatim>\<open>constructor\<close> to the
  node B: \<^verbatim>\<open>getSubGraph([X])\<close> pulls in B and not the source of X, for whose id the
  cache answers from the start, and \<^verbatim>\<open>getSubGraph([B])\<close> takes X for an edge with
  both terminals in the set.
\<close>

theorem getSubGraph_misses_target:
  "map_sum id (map cid) (getSubGraph 1 abc_model (cells_by_id abc_model [''A'']) False) = Inr [''A'']
   \<and> ''B'' \<notin> set [''A'']
   \<and> map_sum id (map cid) (getSubGraph 1 member_model (cells_by_id member_model [''X'']) False)
       = Inr [''X'', ''B'']
   \<and> map_sum id (map cid) (getSubGraph 1 member_model (cells_by_id member_model [''B'']) False)
       = Inr [''B'', ''X'']"
  by code_simp

theorem getSubGraph_closure_witness:
  "getSubGraph 1 abc_model (cells_by_id abc_model [''E'']) False
     = Inr (cells_by_id abc_model [''E'', ''A'', ''B''])
   \<and> plain_model abc_model
   \<and> inj_on cid (set (sg_input abc_model False (cells_by_id abc_model [''E''])))
   \<and> list_all plain (sg_input abc_model False (cells_by_id abc_model [''E'']))
   \<and> set (sg_input abc_model False (cells_by_id abc_model [''E'']))
       \<subseteq> set (cells_by_id abc_model [''E'', ''A'', ''B''])
   \<and> cid ` terminals_of abc_model (Cell ''E'' (Edge (CellRef ''A'') (CellRef ''B'')) (Some 3) ThisModel [])
       \<subseteq> cid ` set (cells_by_id abc_model [''E'', ''A'', ''B''])"
proof -
  let ?E = "Cell ''E'' (Edge (CellRef ''A'') (CellRef ''B'')) (Some 3) ThisModel []"
  have g: "getSubGraph 1 abc_model (cells_by_id abc_model [''E'']) False
      = Inr (cells_by_id abc_model [''E'', ''A'', ''B''])"
    by code_simp
  have m: "plain_model abc_model"
    by code_simp
  have x: "sg_input abc_model False (cells_by_id abc_model [''E'']) = [?E]"
    by code_simp
  have i: "inj_on cid (set (sg_input abc_model False (cells_by_id abc_model [''E''])))"
    by (simp add: x)
  have p: "list_all plain (sg_input abc_model False (cells_by_id abc_model [''E'']))"
    by code_simp
  have e: "?E \<in> set (sg_input abc_model False (cells_by_id abc_model [''E'']))" "isEdge ?E"
    by (simp_all add: x isEdge_def)
  from getSubGraph_closure [of 0 abc_model "cells_by_id abc_model [''E'']" 1 False
      "cells_by_id abc_model [''E'', ''A'', ''B'']"] g m i p e
  show ?thesis by blast
qed

text \<open>
  An edge that is pulled in as the terminal of another edge does not bring its own
  terminals: \<^verbatim>\<open>getSubGraph([E1])\<close> on the chain returns E1 and E2 without X and Y.
\<close>

lemma getSubGraph_terminal_edge:
  "map_sum id (map cid)
     (getSubGraph 1 chain_model (cells_by_id chain_model [''E1'']) False) = Inr [''E1'', ''E2'']"
  by code_simp

text \<open>
  A cell whose id is the name of a member of \<^verbatim>\<open>Object.prototype\<close> is never collected,
  not even when it is the input: the cache answers for its id from the start.
\<close>

lemma getSubGraph_member_id:
  "getSubGraph 1 member_model (cells_by_id member_model [''constructor'']) False = Inr []"
  by code_simp

section \<open>Adding a cell twice\<close>

lemma fold_ids_mono:
  assumes "\<And>x N. x \<in> set xs \<Longrightarrow> cid ` set (collection N) \<subseteq> cid ` set (collection (f x N))"
  shows "cid ` set (collection M) \<subseteq> cid ` set (collection (fold f xs M))"
  using assms
proof (induction xs arbitrary: M)
  case Nil
  show ?case by simp
next
  case (Cons x xs)
  have "cid ` set (collection M) \<subseteq> cid ` set (collection (f x M))"
    using Cons.prems by simp
  also have "\<dots> \<subseteq> cid ` set (collection (fold f xs (f x M)))"
    using Cons.IH Cons.prems by simp
  finally show ?case by simp
qed

lemma addCell_ids_mono:
  "cid ` set (collection M) \<subseteq> cid ` set (collection (addCell c options M))"
proof (induction c options M rule: addCell.induct)
  case (1 i sh z m chs options M)
  show ?case
  proof (cases "\<not> has M (ByCell (Cell i sh z m chs)) \<and> i \<notin> addings M")
    case False
    then show ?thesis by auto
  next
    case True
    let ?M1 = "M\<lparr>addings := insert i (addings M)\<rparr>"
    let ?M2 = "collection_add_cell (prepareCell ?M1 (Cell i sh z m chs) options) ?M1"
    have a: "cid ` set (collection M) \<subseteq> cid ` set (collection ?M2)"
      by (auto simp: ids_collection_add_cell)
    have b: "cid ` set (collection ?M2)
        \<subseteq> cid ` set (collection (fold (\<lambda>child. addCell child options) chs ?M2))"
      using "1.IH" [OF True refl refl] by (intro fold_ids_mono) 
    show ?thesis
      using True a b by (simp add: Let_def)
  qed
qed

lemma addCell_holds_cell:
  assumes "\<not> has M (ByCell c)" "cid c \<notin> addings M"
  shows "has (addCell c options M) (ByCell c)"
proof (cases c)
  case (Cell i sh z m chs)
  let ?M1 = "M\<lparr>addings := insert i (addings M)\<rparr>"
  let ?M2 = "collection_add_cell (prepareCell ?M1 (Cell i sh z m chs) options) ?M1"
  have "i \<in> cid ` set (collection ?M2)"
    by (simp add: ids_collection_add_cell)
  moreover have "cid ` set (collection ?M2)
      \<subseteq> cid ` set (collection (fold (\<lambda>child. addCell child options) chs ?M2))"
    by (rule fold_ids_mono) (rule addCell_ids_mono)
  ultimately show ?thesis
    using assms Cell by (auto simp: has_iff arg_id_def Let_def)
qed

text \<open>
  C8. \<^verbatim>\<open>addCell(c)\<close> twice in succession leaves the model in the state that one call
  leaves: after the first call the cell is held (or was being added), and the second
  call changes nothing.
\<close>

theorem addCell_idempotent:
  "addCell c options (addCell c options M) = addCell c options M"
proof (cases "\<not> has M (ByCell c) \<and> cid c \<notin> addings M")
  case False
  then have "addCell c options M = M"
    by (cases c) auto
  then show ?thesis by simp
next
  case True
  then have "has (addCell c options M) (ByCell c)"
    by (simp add: addCell_holds_cell)
  then show ?thesis
    by (cases c) (simp del: addCell.simps add: addCell.simps [of _ _ _ _ _ _ "addCell _ _ _"])
qed

section \<open>The membership partition\<close>






lemma ids_notify [simp]:
  "node_ids (notify ev M) = node_ids M" "edge_ids (notify ev M) = edge_ids M"
  by (simp_all add: node_ids_def edge_ids_def notify_def)

lemma classified_notify [simp]: "classified (notify ev M) = classified M"
  by (simp add: classified_def)

lemma classified_addings [simp]: "classified (M\<lparr>addings := A\<rparr>) = classified M"
  by (simp add: classified_def node_ids_def edge_ids_def)

lemma classified_batches [simp]: "classified (M\<lparr>batches := b\<rparr>) = classified M"
  by (simp add: classified_def node_ids_def edge_ids_def)

lemma classified_removing [simp]: "classified (M\<lparr>removing := r\<rparr>) = classified M"
  by (simp add: classified_def node_ids_def edge_ids_def)




lemma isEdge_set_source [simp]: "isEdge (set_source p c) = isEdge c"
  by (simp add: set_source_def isEdge_def split: shape.splits)

lemma cid_set_source [simp]: "cid (set_source p c) = cid c"
  by (simp add: set_source_def split: shape.splits)

lemma isEdge_set_target [simp]: "isEdge (set_target p c) = isEdge c"
  by (simp add: set_target_def isEdge_def split: shape.splits)

lemma cid_set_target [simp]: "cid (set_target p c) = cid c"
  by (simp add: set_target_def split: shape.splits)










lemma classified_startBatch [simp]: "classified (startBatch name M) = classified M"
  by (simp add: startBatch_def)

lemma classified_stopBatch [simp]: "classified (stopBatch name M) = classified M"
  by (simp add: stopBatch_def)






lemma collection_fold_onCellAdded [simp]:
  "collection (fold onCellAdded cs M) = collection M"
  by (induction cs arbitrary: M) simp_all










text \<open>
  On the model of A, B and the edge E from A to B no cell has the id \<^verbatim>\<open>__proto__\<close>:
  \<^verbatim>\<open>nodes\<close> has the keys A and B, and \<^verbatim>\<open>edges\<close> has the key E.
\<close>

lemma ab_model_caches:
  "map cid (getCells ab_model) = [''A'', ''B'', ''E'']
   \<and> object_keys (nodes ab_model) = [''A'', ''B'']
   \<and> object_keys (edges ab_model) = [''E'']"
  by code_simp

section \<open>Removal\<close>

lemma collection_setSource [simp]: "length (collection (setSource i p M)) = length (collection M)"
  by (simp add: setSource_def)

lemma collection_setTarget [simp]: "length (collection (setTarget i p M)) = length (collection M)"
  by (simp add: setTarget_def)

lemma disconnectEdges_returns:
  "\<exists>M'. disconnectEdges (Suc n) cell options M = Inr M'
        \<and> length (collection M') \<le> length (collection M)"
proof -
  obtain es where es: "getConnectedEdges (Suc n) M cell no_options = Inr es"
    using getConnectedEdges_direct_total [of no_options n M cell] by (auto simp: no_options_def)
  have "\<exists>M'. forEach es
          (\<lambda>edge M.
              let sourceCell = getSourceCell M edge;
                  targetCell = getTargetCell M edge;
                  M1 = (if (case sourceCell of None \<Rightarrow> False | Some s \<Rightarrow> cid s = arg_id cell)
                        then setSource (cid edge) (Point 0 0) M else M);
                  M2 = (if (case targetCell of None \<Rightarrow> False | Some t \<Rightarrow> cid t = arg_id cell)
                        then setTarget (cid edge) (Point 0 0) M1 else M1)
              in Inr M2) M = Inr M'
        \<and> length (collection M') \<le> length (collection M)"
    by (rule forEach_returns [where P = "\<lambda>N. length (collection N) \<le> length (collection M)"])
      (simp_all add: Let_def)
  then show ?thesis
    by (simp add: disconnectEdges_def es andThen_def Let_def)
qed

text \<open>
  A removal returns as soon as the bound exceeds the number of cells that the model
  holds: every nested removal starts from a smaller collection.
\<close>

lemma removeCell_returns:
  "length (collection M) < n \<Longrightarrow>
     \<exists>M'. removeCell n obj options M = Inr M' \<and> length (collection M') \<le> length (collection M)"
proof (induction n arbitrary: obj options M)
  case 0
  then show ?case by simp
next
  case (Suc n)
  show ?case
  proof (cases "removal_target M obj")
    case None
    then show ?thesis by simp
  next
    case (Some cell)
    then have "has M (ByCell cell)"
      by (auto simp: removal_target_def split: option.splits if_splits)
    then obtain held where held: "collection_get (collection M) (cid cell) = Some held"
      by (auto simp: has_def collection_has_def arg_id_def)
    then have "held \<in> set (collection M)" "cid held = cid cell"
      by (auto simp: collection_get_def find_Some_iff)
    then have "length (filter (\<lambda>c. cid c \<noteq> cid cell) (collection M)) < length (collection M)"
      by (intro length_filter_less [of held]) auto
    then have short: "length (filter (\<lambda>c. cid c \<noteq> cid cell) (collection M)) < n"
      using Suc.prems by simp
    define M0 where "M0 = M\<lparr>collection := filter (\<lambda>c. cid c \<noteq> cid cell) (collection M),
        removing := (if cmodel held = ThisModel then held # removing M else removing M)\<rparr>"
    define M1 where "M1 = (if isEdge held
        then M0\<lparr>edges := object_delete (cid held) (edges M0)\<rparr>
        else M0\<lparr>nodes := object_delete (cid held) (nodes M0)\<rparr>)"
    have c1: "collection M1 = filter (\<lambda>c. cid c \<noteq> cid cell) (collection M)"
      by (simp add: M1_def M0_def)
    have "\<exists>M2. (if \<not> opt_clear options then
          (if opt_disconnectEdges options then disconnectEdges (Suc n) (ByCell held) options M1
           else removeEdges (\<lambda>c. removeCell n (ByCell c)) (Suc n) (ByCell held) options M1)
        else Inr M1) = Inr M2
        \<and> length (collection M2) \<le> length (collection M1)"
    proof (cases "opt_clear options")
      case True
      then show ?thesis by simp
    next
      case False
      show ?thesis
      proof (cases "opt_disconnectEdges options")
        case True
        then show ?thesis
          using False disconnectEdges_returns by simp
      next
        case no: False
        obtain es where es: "getConnectedEdges (Suc n) M1 (ByCell held) no_options = Inr es"
          using getConnectedEdges_direct_total [of no_options n M1 "ByCell held"]
          by (auto simp: no_options_def)
        have "\<exists>M2. forEach es (\<lambda>edge. removeCell n (ByCell edge) options) M1 = Inr M2
            \<and> length (collection M2) \<le> length (collection M1)"
        proof (rule forEach_returns [where P = "\<lambda>N. length (collection N) \<le> length (collection M1)"])
          fix x and N :: model
          assume "length (collection N) \<le> length (collection M1)"
          then have "length (collection N) < n"
            using short c1 by simp
          from Suc.IH [OF this, of "ByCell x" options]
          show "\<exists>s'. removeCell n (ByCell x) options N = Inr s'
              \<and> length (collection s') \<le> length (collection M1)"
            using \<open>length (collection N) \<le> length (collection M1)\<close> by auto
        qed simp
        then show ?thesis
          using False no es by (simp add: removeEdges_def andThen_def)
      qed
    qed
    then obtain M2 where M2:
      "afterCellRemoved (\<lambda>c. removeCell n (ByCell c)) (Suc n) held options M1 = Inr M2"
      "length (collection M2) \<le> length (collection M1)"
      by (auto simp: afterCellRemoved_def andThen_def)
    have "onCellRemoved (\<lambda>c. removeCell n (ByCell c)) (Suc n) held options M0 = Inr M2"
      using M2(1) by (simp add: onCellRemoved_def M1_def)
    then obtain M3 where
      "on_removed (\<lambda>c. removeCell n (ByCell c)) (Suc n) held options M0 = Inr M3"
      "collection M3 = collection M2"
      by (simp add: on_removed_def andThen_def Let_def)
    moreover have "length (collection M2) \<le> length (collection M)"
      using M2(2) unfolding c1 by (rule order_trans) (rule length_filter_le)
    ultimately show ?thesis
      using Some held by (simp add: collection_remove_def M0_def)
  qed
qed

text \<open>
  C9. \<^verbatim>\<open>removeCell(id)\<close> with an id that the model does not hold (\<^verbatim>\<open>getCell(id)\<close> is
  undefined) returns without an error and leaves the whole state as it was, whatever the
  bound.
\<close>

theorem removeCell_unknown_id:
  assumes "getCell M i = None"
  shows "removeCell n (ById i) options M = Inr M"
  using assms by (cases n) (simp_all add: removal_target_def)

theorem removeCell_unknown_id_witness:
  "getCell ab_model ''Z'' = None
   \<and> removeCell 0 (ById ''Z'') no_remove_options ab_model = Inr ab_model"
proof -
  have h: "getCell ab_model ''Z'' = None"
    by code_simp
  show ?thesis
    using h removeCell_unknown_id [OF h, of 0 no_remove_options] by simp
qed


text \<open>
  The events of the two removals: with the default options the removal of E is nested in
  the removal of A, and its events come first; with \<^verbatim>\<open>disconnectEdges\<close> only A is
  removed. After both no cell is left between the collection and its detachment.
\<close>

lemma edge_cleanup_events:
  "map_sum id (\<lambda>M. (removals (events M), removing M))
     (removeCell 2 (ById ''A'') no_remove_options ab_model)
     = Inr ([EdgeRemoved ''E'', NodeRemoved ''A''], [])
   \<and> map_sum id (\<lambda>M. (removals (events M), removing M))
       (removeCell 2 (ById ''A'') \<lparr>opt_clear = False, opt_disconnectEdges = True\<rparr> ab_model)
     = Inr ([NodeRemoved ''A''], [])"
  by code_simp

text \<open>
  The removal of the target works alike: \<^verbatim>\<open>removeCell(B, { disconnectEdges: true })\<close>
  leaves A and E, with the target terminal of E at the point (0, 0).
\<close>

lemma removeCell_disconnect_target:
  "map_sum id (\<lambda>M. map (\<lambda>c. (cid c, shape c)) (collection M))
     (removeCell 2 (ById ''B'') \<lparr>opt_clear = False, opt_disconnectEdges = True\<rparr> ab_model)
   = Inr [(''A'', Node), (''E'', Edge (CellRef ''A'') (Point 0 0))]"
  by code_simp

section \<open>Clearing\<close>

lemma set_js_insert: "set (js_insert comparefn x ys) = insert x (set ys)"
  by (induction ys) auto

lemma set_js_sort: "set (js_sort comparefn xs) = set xs"
proof -
  have "set (foldl (\<lambda>sorted x. js_insert comparefn x sorted) acc xs) = set acc \<union> set xs" for acc
    by (induction xs arbitrary: acc) (simp_all add: set_js_insert)
  then show ?thesis by (simp add: js_sort_def)
qed

text \<open>
  A comparison function that never answers a negative number never asks for two cells to
  change places, and the sort returns the list it was given. The function that
  \<^verbatim>\<open>clear\<close> passes is one: it answers 1 or 2.
\<close>

lemma js_insert_last:
  "(\<forall>y \<in> set ys. 0 \<le> comparefn x y) \<Longrightarrow> js_insert comparefn x ys = ys @ [x]"
  by (induction ys) (simp_all add: not_less [symmetric])

lemma js_sort_in_place:
  assumes "\<And>x y. 0 \<le> comparefn x y"
  shows "js_sort comparefn xs = xs"
proof -
  have "foldl (\<lambda>sorted x. js_insert comparefn x sorted) acc xs = acc @ xs" for acc
    by (induction xs arbitrary: acc) (simp_all add: js_insert_last assms)
  then show ?thesis by (simp add: js_sort_def)
qed

lemma clear_order_positive: "0 < clear_order a b"
  by (simp add: clear_order_def)

lemma clear_order_in_place: "js_sort clear_order cells = cells"
  by (rule js_sort_in_place) (simp add: clear_order_def)

lemma removeCell_clear_flag:
  assumes "opt_clear options"
  shows "\<exists>M'. removeCell (Suc n) (ByCell c) options M = Inr M'
      \<and> collection M' = filter (\<lambda>x. cid x \<noteq> cid c) (collection M)"
proof (cases "has M (ByCell c)")
  case False
  then have "cid c \<notin> cid ` set (collection M)"
    by (simp add: has_iff arg_id_def)
  then have "\<forall>x\<in>set (collection M). cid x \<noteq> cid c"
    by (metis imageI)
  then have "filter (\<lambda>x. cid x \<noteq> cid c) (collection M) = collection M"
    by (simp add: filter_id_conv)
  then show ?thesis
    using False by (simp add: removal_target_def)
next
  case True
  then obtain held where held: "collection_get (collection M) (cid c) = Some held"
    by (auto simp: has_def collection_has_def arg_id_def)
  show ?thesis
    using True held assms
    by (simp add: removal_target_def collection_remove_def on_removed_def onCellRemoved_def
        afterCellRemoved_def andThen_def Let_def)
qed

lemma clear_loop_returns:
  assumes "opt_clear options" "cid ` set (collection N) \<subseteq> cid ` set xs"
  shows "\<exists>N'. forEach xs (\<lambda>cell. cell_remove (Suc n) cell options) N = Inr N' \<and> collection N' = []"
  using assms(2)
proof (induction xs arbitrary: N)
  case Nil
  then show ?case by simp
next
  case (Cons x xs)
  obtain N1 where N1: "removeCell (Suc n) (ByCell x) options N = Inr N1"
    "collection N1 = filter (\<lambda>y. cid y \<noteq> cid x) (collection N)"
    using removeCell_clear_flag [OF assms(1), of n x N] by auto
  have "cid ` set (collection N1) \<subseteq> cid ` set xs"
    using Cons.prems N1(2) by auto
  from Cons.IH [OF this] N1(1) show ?case
    by (simp add: cell_remove_def del: removeCell.simps)
qed

text \<open>
  \<^verbatim>\<open>clear\<close> returns for every bound of at least 1, and it leaves no cell: with the flag
  \<^verbatim>\<open>clear\<close> set no removal nests another one.
\<close>

lemma clear_returns:
  "\<exists>M'. clear (Suc n) options M = Inr M' \<and> collection M' = []"
proof (cases "getCells M = []")
  case True
  then show ?thesis by (simp add: clear_def getCells_def)
next
  case False
  have "cid ` set (collection (startBatch ''clear'' M))
      \<subseteq> cid ` set (js_sort clear_order (getCells M))"
    by (simp add: set_js_sort getCells_def startBatch_def)
  from clear_loop_returns [OF _ this, of "options\<lparr>opt_clear := True\<rparr>" n]
  obtain N' where "forEach (js_sort clear_order (getCells M))
      (\<lambda>cell. cell_remove (Suc n) cell (options\<lparr>opt_clear := True\<rparr>)) (startBatch ''clear'' M) = Inr N'"
    "collection N' = []"
    by auto
  then show ?thesis
    using False by (simp add: clear_def executeBatch_def andThen_def Let_def stopBatch_def)
qed

text \<open>
  The whole log of \<^verbatim>\<open>clear()\<close> on the model of the nodes A and B and the edge E from
  A to B: one batch, every removal with the flag \<^verbatim>\<open>clear\<close>, and no removal nested in
  another one.
\<close>

lemma clear_ab_model_events:
  "map_sum id (\<lambda>M. drop 6 (events M)) (clear 1 no_remove_options ab_model)
     = Inr [BatchStart ''clear'',
            CellRemoved ''A'' \<lparr>opt_clear = True, opt_disconnectEdges = False\<rparr>,
            NodeRemoved ''A'',
            CellRemoved ''B'' \<lparr>opt_clear = True, opt_disconnectEdges = False\<rparr>,
            NodeRemoved ''B'',
            CellRemoved ''E'' \<lparr>opt_clear = True, opt_disconnectEdges = False\<rparr>,
            EdgeRemoved ''E'',
            BatchStop ''clear'']"
  by code_simp

text \<open>
  C2, at the failing input: \<^verbatim>\<open>clear()\<close> on the model of the nodes A and B and the
  edge E from A to B, added in this order, removes both nodes before the edge. The
  comparison function answers 1 or 2, never a negative number, and the sort leaves the
  cells as they were. The cells of this model have no parent and no children.
\<close>

theorem clear_removes_nodes_first:
  "map_sum id (\<lambda>M. (collection M, removals (events M))) (clear 1 no_remove_options ab_model)
     = Inr ([], [NodeRemoved ''A'', NodeRemoved ''B'', EdgeRemoved ''E''])"
  by code_simp

section \<open>Shortest paths\<close>


lemma not_present_iff:
  "\<not> present (object_get obj k) \<longleftrightarrow> map_of obj k = None \<and> \<not> inherited k"
  by (auto simp: present_def object_get_def split: option.splits)

lemma adj_arcs_key [simp]: "adj_arcs (adj_key k adj) = adj_arcs adj"
  by (auto simp: adj_arcs_def adj_key_def update_conv' not_present_iff split: if_splits)
























end
